theory Spec2Isabelle
  imports
    Complex_Main
    "HOL-Library.Char_ord"
    "HOL-Library.List_Lexorder"
    "HOL-Library.Product_Lexorder"
    "HOL-Library.Multiset"
begin

section \<open>Data model\<close>

text \<open>
  Currency amounts are the \<^verbatim>\<open>REAL\<close> columns and Python floats of the program. They are
  modelled as exact rationals: every property below is an algebraic identity between the
  amounts the code computes, or a structural fact about rows, and none depends on the
  rounding error of a binary float.
\<close>

type_synonym money = rat

text \<open>
  \<^verbatim>\<open>datetime\<close> values, to the second (the resolution \<^verbatim>\<open>strftime\<close> is asked for).
\<close>

record datetime =
  dt_year :: nat
  dt_month :: nat
  dt_day :: nat
  dt_hour :: nat
  dt_minute :: nat
  dt_second :: nat

text \<open>
  A row of table \<^verbatim>\<open>products\<close> (db_manager.py, \<^verbatim>\<open>_init_database\<close>). The timestamp columns
  of the catalog tables (\<^verbatim>\<open>created_at\<close>, \<^verbatim>\<open>last_restocked\<close>), which no query below reads, are
  left out of the rows.
\<close>

record product_row =
  p_id :: int
  p_name :: string
  p_category :: string
  p_price :: money
  p_description :: string
  p_image_url :: string
  p_is_available :: int

subsection \<open>The cart of modules/new_order_tab.py\<close>

text \<open>
  \<^verbatim>\<open>NewOrderTab.current_order\<close> is a list of dicts
  \<^verbatim>\<open>{'product': ..., 'quantity': ..., 'customizations': [...]}\<close>.
\<close>

record order_line =
  l_product :: product_row
  l_quantity :: int
  l_customizations :: "string list"

text \<open>
  The \<^verbatim>\<open>for ... if ...: item['quantity'] += 1; break\<close> loop of \<^verbatim>\<open>_add_to_order\<close>:
  \<open>Some\<close> of the updated list when the loop left through \<^verbatim>\<open>break\<close>, \<open>None\<close> when it
  ran to its end (so that the \<^verbatim>\<open>else\<close> branch of the loop runs).
\<close>

fun bump_line :: "int \<Rightarrow> order_line list \<Rightarrow> order_line list option" where
  "bump_line pid [] = None"
| "bump_line pid (item # rest) =
     (if p_id (l_product item) = pid
      then Some (item\<lparr>l_quantity := l_quantity item + 1\<rparr> # rest)
      else map_option ((#) item) (bump_line pid rest))"

text \<open>\<^verbatim>\<open>NewOrderTab._add_to_order\<close>.\<close>

definition add_to_order :: "order_line list \<Rightarrow> product_row \<Rightarrow> order_line list" where
  "add_to_order current_order product =
     (case bump_line (p_id product) current_order of
        Some updated \<Rightarrow> updated
      | None \<Rightarrow> current_order @
          [\<lparr>l_product = product, l_quantity = 1, l_customizations = []\<rparr>])"

datatype error =
    ValueError
  | IndexError
  | OverflowError
  | IntegrityError
  | OperationalError

text \<open>
  \<^verbatim>\<open>NewOrderTab._remove_from_order\<close>: \<^verbatim>\<open>list.remove(item)\<close> deletes the first element equal
  to \<^verbatim>\<open>item\<close> and raises \<^verbatim>\<open>ValueError\<close> when there is none.
\<close>

definition remove_from_order :: "order_line list \<Rightarrow> order_line \<Rightarrow> error + order_line list" where
  "remove_from_order current_order item =
     (if item \<in> set current_order then Inr (remove1 item current_order) else Inl ValueError)"

text \<open>
  \<^verbatim>\<open>NewOrderTab._update_totals\<close>: the triple (subtotal, tax, total). Python's \<^verbatim>\<open>sum\<close>
  adds from the left, starting at 0.
\<close>

definition py_sum :: "money list \<Rightarrow> money" where
  "py_sum xs = foldl (+) 0 xs"

definition update_totals :: "order_line list \<Rightarrow> money \<times> money \<times> money" where
  "update_totals current_order =
     (let subtotal = py_sum (map (\<lambda>item. p_price (l_product item) * of_int (l_quantity item))
                              current_order);
          tax = subtotal * (8 / 100);
          total' = subtotal + tax
      in (subtotal, tax, total'))"

text \<open>
  \<^verbatim>\<open>NewOrderTab._process_payment\<close> on the pair (current_order, order_number): nothing
  happens on an empty order; otherwise the order is cleared and the counter advances.
\<close>

definition tab_process_payment :: "order_line list \<times> int \<Rightarrow> order_line list \<times> int" where
  "tab_process_payment st =
     (case st of (current_order, order_number) \<Rightarrow>
        if current_order = [] then st else ([], order_number + 1))"

text \<open>The three things the operator can do to the cart of the tab.\<close>

datatype tab_op = TabAdd product_row | TabRemove order_line | TabCharge

text \<open>
  One callback on the pair (current_order, order_number). An exception raised inside a Tk
  callback is reported and the main loop goes on, with the cart as it was.
\<close>

fun tab_step :: "order_line list \<times> int \<Rightarrow> tab_op \<Rightarrow> order_line list \<times> int" where
  "tab_step (cart, n) (TabAdd product) = (add_to_order cart product, n)"
| "tab_step (cart, n) (TabRemove item) =
     (case remove_from_order cart item of Inl e \<Rightarrow> (cart, n) | Inr cart' \<Rightarrow> (cart', n))"
| "tab_step (cart, n) TabCharge = tab_process_payment (cart, n)"

subsection \<open>The cart of simple_pos.py\<close>

text \<open>
  \<^verbatim>\<open>SimplePOSApp.current_order\<close> is a list of dicts
  \<^verbatim>\<open>{'id': ..., 'name': ..., 'price': ..., 'quantity': ...}\<close>.
\<close>

record simple_item =
  s_id :: int
  s_name :: string
  s_price :: money
  s_quantity :: int

fun simple_bump :: "int \<Rightarrow> simple_item list \<Rightarrow> simple_item list option" where
  "simple_bump pid [] = None"
| "simple_bump pid (item # rest) =
     (if s_id item = pid
      then Some (item\<lparr>s_quantity := s_quantity item + 1\<rparr> # rest)
      else map_option ((#) item) (simple_bump pid rest))"

text \<open>\<^verbatim>\<open>SimplePOSApp.add_to_order\<close>; the product is the tuple (product_id, name, price).\<close>

definition simple_add_to_order ::
  "simple_item list \<Rightarrow> int \<times> string \<times> money \<Rightarrow> simple_item list" where
  "simple_add_to_order current_order product =
     (case product of (product_id, name, price) \<Rightarrow>
        (case simple_bump product_id current_order of
           Some updated \<Rightarrow> updated
         | None \<Rightarrow> current_order @
             [\<lparr>s_id = product_id, s_name = name, s_price = price, s_quantity = 1\<rparr>]))"

text \<open>\<^verbatim>\<open>SimplePOSApp.remove_from_order\<close>: a list comprehension keeping the other ids.\<close>

definition simple_remove_from_order :: "simple_item list \<Rightarrow> int \<Rightarrow> simple_item list" where
  "simple_remove_from_order current_order product_id =
     filter (\<lambda>item. s_id item \<noteq> product_id) current_order"

text \<open>\<^verbatim>\<open>SimplePOSApp.clear_order\<close>.\<close>

definition simple_clear_order :: "simple_item list \<Rightarrow> simple_item list" where
  "simple_clear_order current_order = []"

text \<open>The totals computed at the end of \<^verbatim>\<open>SimplePOSApp.update_order_display\<close>.\<close>

definition simple_totals :: "simple_item list \<Rightarrow> money \<times> money \<times> money" where
  "simple_totals current_order =
     (let subtotal = py_sum (map (\<lambda>item. s_price item * of_int (s_quantity item)) current_order);
          tax = subtotal * (8 / 100);
          total' = subtotal + tax
      in (subtotal, tax, total'))"

datatype simple_op = SimpleAdd "int \<times> string \<times> money" | SimpleRemove int | SimpleClear

fun simple_step :: "simple_item list \<Rightarrow> simple_op \<Rightarrow> simple_item list" where
  "simple_step cart (SimpleAdd product) = simple_add_to_order cart product"
| "simple_step cart (SimpleRemove product_id) = simple_remove_from_order cart product_id"
| "simple_step cart SimpleClear = simple_clear_order cart"

section \<open>The stored tables\<close>

text \<open>Rows of \<^verbatim>\<open>customers\<close>, \<^verbatim>\<open>orders\<close>, \<^verbatim>\<open>order_items\<close> and \<^verbatim>\<open>inventory\<close>.\<close>

record customer_row =
  c_id :: int
  c_name :: string
  c_email :: string
  c_phone :: string
  c_loyalty_points :: int

record order_row =
  o_id :: int
  o_customer_id :: "int option"
  o_order_number :: string
  o_subtotal :: money
  o_tax :: money
  o_total :: money
  o_payment_method :: string
  o_status :: string
  o_cashier_name :: string
  o_created_at :: datetime

text \<open>
  Column \<^verbatim>\<open>customizations\<close> holds the JSON text of a list (\<^verbatim>\<open>json.dumps\<close>), or NULL; the
  model keeps the list itself, \<open>None\<close> for NULL.
\<close>

record order_item_row =
  oi_id :: int
  oi_order_id :: int
  oi_product_id :: int
  oi_quantity :: int
  oi_unit_price :: money
  oi_customizations :: "string list option"

record inventory_row =
  inv_id :: int
  inv_product_id :: int
  inv_current_stock :: int
  inv_min_stock :: int
  inv_max_stock :: int

text \<open>
  The committed content of the database file: each table as the list of its rows in
  insertion order, and the \<^verbatim>\<open>sqlite_sequence\<close> counters of the two \<^verbatim>\<open>AUTOINCREMENT\<close> keys
  that the program writes after seeding.
\<close>

record database =
  t_products :: "product_row list"
  t_customers :: "customer_row list"
  t_orders :: "order_row list"
  t_order_items :: "order_item_row list"
  t_inventory :: "inventory_row list"
  orders_seq :: int
  order_items_seq :: int

definition empty_db :: database where
  "empty_db = \<lparr>t_products = [], t_customers = [], t_orders = [], t_order_items = [], t_inventory = [],
     orders_seq = 0, order_items_seq = 0\<rparr>"

text \<open>
  An \<^verbatim>\<open>INTEGER PRIMARY KEY AUTOINCREMENT\<close> column: the new key is one more than the
  largest key the table holds or has ever held.
\<close>

definition next_rowid :: "int \<Rightarrow> int list \<Rightarrow> int" where
  "next_rowid seq ids = fold max ids seq + 1"

text \<open>
  \<^verbatim>\<open>INSERT INTO orders\<close>, returning the changed tables and \<^verbatim>\<open>cursor.lastrowid\<close>. The column
  \<^verbatim>\<open>order_number\<close> is \<^verbatim>\<open>UNIQUE\<close>: a second row with the same number is refused with
  \<^verbatim>\<open>sqlite3.IntegrityError\<close>. Column \<^verbatim>\<open>status\<close> takes its default.
\<close>

definition insert_order ::
  "database \<Rightarrow> int option \<Rightarrow> string \<Rightarrow> money \<Rightarrow> money \<Rightarrow> money \<Rightarrow> string \<Rightarrow> string \<Rightarrow> datetime
     \<Rightarrow> error + (database \<times> int)" where
  "insert_order db customer_id order_number subtotal tax total' payment_method cashier_name
       created_at =
     (if order_number \<in> set (map o_order_number (t_orders db)) then Inl IntegrityError
      else
        let rowid = next_rowid (orders_seq db) (map o_id (t_orders db)) in
        Inr (db\<lparr>t_orders := t_orders db @
                 [\<lparr>o_id = rowid, o_customer_id = customer_id, o_order_number = order_number,
                   o_subtotal = subtotal, o_tax = tax, o_total = total',
                   o_payment_method = payment_method, o_status = ''completed'',
                   o_cashier_name = cashier_name, o_created_at = created_at\<rparr>],
               orders_seq := rowid\<rparr>,
             rowid))"

text \<open>\<^verbatim>\<open>INSERT INTO order_items\<close>; the table has no constraint an insertion can violate.\<close>

definition insert_order_item ::
  "database \<Rightarrow> int \<Rightarrow> int \<Rightarrow> int \<Rightarrow> money \<Rightarrow> string list option \<Rightarrow> database" where
  "insert_order_item db order_id product_id quantity unit_price customizations =
     (let rowid = next_rowid (order_items_seq db) (map oi_id (t_order_items db)) in
      db\<lparr>t_order_items := t_order_items db @
            [\<lparr>oi_id = rowid, oi_order_id = order_id, oi_product_id = product_id,
              oi_quantity = quantity, oi_unit_price = unit_price,
              oi_customizations = customizations\<rparr>],
          order_items_seq := rowid\<rparr>)"

section \<open>Formatting numbers and dates\<close>

definition digit_char :: "nat \<Rightarrow> char" where
  "digit_char d = char_of (48 + d)"

text \<open>\<^verbatim>\<open>str(n)\<close> for a natural number.\<close>

fun str_nat :: "nat \<Rightarrow> string" where
  "str_nat n = (if n < 10 then [digit_char n] else str_nat (n div 10) @ [digit_char (n mod 10)])"

declare str_nat.simps [simp del]

text \<open>Zero padding on the left to width \<open>w\<close> (\<^verbatim>\<open>%m\<close>, \<^verbatim>\<open>%d\<close>, \<^verbatim>\<open>{n:03d}\<close>).\<close>

definition zfill :: "nat \<Rightarrow> string \<Rightarrow> string" where
  "zfill w s = replicate (w - length s) (CHR ''0'') @ s"

text \<open>\<^verbatim>\<open>strftime('%Y%m%d')\<close> and \<^verbatim>\<open>strftime('%Y%m%d%H%M%S')\<close>.\<close>

definition strftime_Ymd :: "datetime \<Rightarrow> string" where
  "strftime_Ymd t =
     zfill 4 (str_nat (dt_year t)) @ zfill 2 (str_nat (dt_month t)) @ zfill 2 (str_nat (dt_day t))"

definition strftime_YmdHMS :: "datetime \<Rightarrow> string" where
  "strftime_YmdHMS t =
     strftime_Ymd t @ zfill 2 (str_nat (dt_hour t)) @ zfill 2 (str_nat (dt_minute t))
       @ zfill 2 (str_nat (dt_second t))"

section \<open>The Order Finalizer\<close>

text \<open>
  One element of the \<^verbatim>\<open>order_items\<close> argument of \<^verbatim>\<open>create_order\<close>: a dict with keys
  \<^verbatim>\<open>product_id\<close>, \<^verbatim>\<open>quantity\<close>, \<^verbatim>\<open>unit_price\<close> and, optionally, \<^verbatim>\<open>customizations\<close>.
\<close>

record order_item =
  i_product_id :: int
  i_quantity :: int
  i_unit_price :: money
  i_customizations :: "string list option"

text \<open>The line \<^verbatim>\<open>order_number = f"ORD{datetime.now().strftime('%Y%m%d%H%M%S')}"\<close>.\<close>

definition generate_order_number :: "datetime \<Rightarrow> string" where
  "generate_order_number now = ''ORD'' @ strftime_YmdHMS now"

text \<open>
  The two \<^verbatim>\<open>create_order\<close> methods (database/db_manager.py and main.py) execute the same
  statements; they differ in the customer they store and in what they write to column
  \<^verbatim>\<open>customizations\<close>, which are arguments of the shared body below.

  The body runs its statements inside one transaction, on a working copy of the tables.
  The storage engine can fail at any statement: \<open>fails k\<close> says that statement number
  \<open>k\<close> of the call raises \<^verbatim>\<open>sqlite3.OperationalError\<close> (statement 0 is the insertion of
  the order, statement \<open>i + 1\<close> the insertion of item \<open>i\<close>, the last one is the commit).
  A failed body returns the error together with the working copy it had reached.
\<close>

fun insert_items ::
  "(nat \<Rightarrow> bool) \<Rightarrow> nat \<Rightarrow> int \<Rightarrow> (order_item \<Rightarrow> string list option) \<Rightarrow> order_item list
     \<Rightarrow> database \<Rightarrow> (error \<times> database) + database" where
  "insert_items fails k order_id customizations_of [] work = Inr work"
| "insert_items fails k order_id customizations_of (item # rest) work =
     (if fails k then Inl (OperationalError, work)
      else insert_items fails (Suc k) order_id customizations_of rest
             (insert_order_item work order_id (i_product_id item) (i_quantity item)
                (i_unit_price item) (customizations_of item)))"

definition create_order_body ::
  "(nat \<Rightarrow> bool) \<Rightarrow> datetime \<Rightarrow> datetime \<Rightarrow> database \<Rightarrow> int option
     \<Rightarrow> (order_item \<Rightarrow> string list option) \<Rightarrow> order_item list \<Rightarrow> string \<Rightarrow> string
     \<Rightarrow> (error \<times> database) + (database \<times> int)" where
  "create_order_body fails now current_timestamp db customer_id customizations_of order_items
       payment_method cashier_name =
     (let subtotal = py_sum (map (\<lambda>item. of_int (i_quantity item) * i_unit_price item)
                              order_items);
          tax = subtotal * (8 / 100);
          total' = subtotal + tax;
          order_number = generate_order_number now
      in
        if fails 0 then Inl (OperationalError, db)
        else
          case insert_order db customer_id order_number subtotal tax total' payment_method
                 cashier_name current_timestamp of
            Inl e \<Rightarrow> Inl (e, db)
          | Inr (work, order_id) \<Rightarrow>
              (case insert_items fails 1 order_id customizations_of order_items work of
                 Inl failure \<Rightarrow> Inl failure
               | Inr work' \<Rightarrow>
                   if fails (Suc (length order_items)) then Inl (OperationalError, work')
                   else Inr (work', order_id)))"

text \<open>
  What a failed or finished body leaves in the file. In db_manager.py the body stands in
  \<^verbatim>\<open>with sqlite3.connect(...) as conn\<close>: when it raises, the connection rolls the
  transaction back and the exception goes on to the caller. In main.py a raising statement
  skips \<^verbatim>\<open>conn.commit()\<close> and the connection is dropped with its transaction open, which
  discards it. Either way the committed tables are the ones the call started from. The
  result is the committed tables after the call and what the caller sees.
\<close>

definition transaction ::
  "database \<Rightarrow> (error \<times> database) + (database \<times> int) \<Rightarrow> database \<times> (error + int)" where
  "transaction db outcome =
     (case outcome of
        Inl (e, work) \<Rightarrow> (db, Inl e)
      | Inr (work, order_id) \<Rightarrow> (work, Inr order_id))"

text \<open>
  \<^verbatim>\<open>DatabaseManager.create_order\<close> of database/db_manager.py. \<open>now\<close> is the value of
  \<^verbatim>\<open>datetime.now()\<close>, \<open>current_timestamp\<close> the default the engine gives \<^verbatim>\<open>created_at\<close>.
  The column \<^verbatim>\<open>customizations\<close> gets \<^verbatim>\<open>json.dumps(item.get('customizations', []))\<close>.
\<close>

definition create_order ::
  "(nat \<Rightarrow> bool) \<Rightarrow> datetime \<Rightarrow> datetime \<Rightarrow> database \<Rightarrow> int option \<Rightarrow> order_item list \<Rightarrow> string
     \<Rightarrow> string \<Rightarrow> database \<times> (error + int)" where
  "create_order fails now current_timestamp db customer_id order_items payment_method
       cashier_name =
     transaction db
       (create_order_body fails now current_timestamp db customer_id
          (\<lambda>item. Some (case i_customizations item of None \<Rightarrow> [] | Some c \<Rightarrow> c))
          order_items payment_method cashier_name)"

text \<open>
  \<^verbatim>\<open>DatabaseManager.create_order\<close> of main.py: its tables have no customer and no
  customizations, which stay NULL here.
\<close>

definition main_create_order ::
  "(nat \<Rightarrow> bool) \<Rightarrow> datetime \<Rightarrow> datetime \<Rightarrow> database \<Rightarrow> order_item list \<Rightarrow> string \<Rightarrow> string
     \<Rightarrow> database \<times> (error + int)" where
  "main_create_order fails now current_timestamp db order_items payment_method cashier_name =
     transaction db
       (create_order_body fails now current_timestamp db None (\<lambda>item. None)
          order_items payment_method cashier_name)"

subsection \<open>The caller in main.py\<close>

text \<open>A line of \<^verbatim>\<open>NewOrderPanel.current_order\<close>: \<^verbatim>\<open>{'product': ..., 'quantity': ...}\<close>.\<close>

record panel_line =
  pl_product :: product_row
  pl_quantity :: int

text \<open>
  \<^verbatim>\<open>NewOrderPanel.add_to_order\<close>, \<^verbatim>\<open>remove_from_order\<close> and \<^verbatim>\<open>clear_order\<close>: the same loop
  with \<^verbatim>\<open>break\<close> and \<^verbatim>\<open>else\<close> as in the tab, a list comprehension, and \<^verbatim>\<open>clear()\<close>.
\<close>

fun panel_bump :: "int \<Rightarrow> panel_line list \<Rightarrow> panel_line list option" where
  "panel_bump pid [] = None"
| "panel_bump pid (item # rest) =
     (if p_id (pl_product item) = pid
      then Some (item\<lparr>pl_quantity := pl_quantity item + 1\<rparr> # rest)
      else map_option ((#) item) (panel_bump pid rest))"

definition panel_add_to_order :: "panel_line list \<Rightarrow> product_row \<Rightarrow> panel_line list" where
  "panel_add_to_order current_order product =
     (case panel_bump (p_id product) current_order of
        Some updated \<Rightarrow> updated
      | None \<Rightarrow> current_order @ [\<lparr>pl_product = product, pl_quantity = 1\<rparr>])"

definition panel_remove_from_order :: "panel_line list \<Rightarrow> int \<Rightarrow> panel_line list" where
  "panel_remove_from_order current_order product_id =
     filter (\<lambda>item. p_id (pl_product item) \<noteq> product_id) current_order"

definition panel_clear_order :: "panel_line list \<Rightarrow> panel_line list" where
  "panel_clear_order current_order = []"

datatype panel_op = PanelAdd product_row | PanelRemove int | PanelClear

fun panel_step :: "panel_line list \<Rightarrow> panel_op \<Rightarrow> panel_line list" where
  "panel_step cart (PanelAdd product) = panel_add_to_order cart product"
| "panel_step cart (PanelRemove product_id) = panel_remove_from_order cart product_id"
| "panel_step cart PanelClear = panel_clear_order cart"

text \<open>
  The list \<^verbatim>\<open>order_items\<close> that \<^verbatim>\<open>NewOrderPanel.process_payment\<close> builds from the cart and
  hands to \<^verbatim>\<open>create_order\<close>.
\<close>

definition payment_items :: "panel_line list \<Rightarrow> order_item list" where
  "payment_items current_order =
     map (\<lambda>item. \<lparr>i_product_id = p_id (pl_product item), i_quantity = pl_quantity item,
                   i_unit_price = p_price (pl_product item), i_customizations = None\<rparr>)
       current_order"

text \<open>
  \<^verbatim>\<open>NewOrderPanel.process_payment\<close> on the triple (tables, current_order, order_number).
  An empty order returns at once. An exception of \<^verbatim>\<open>create_order\<close> leaves the method before
  the order is cleared; after a stored order, \<^verbatim>\<open>clear_order\<close> empties the cart.
\<close>

definition process_payment ::
  "(nat \<Rightarrow> bool) \<Rightarrow> datetime \<Rightarrow> datetime \<Rightarrow> database \<times> panel_line list \<times> int
     \<Rightarrow> database \<times> panel_line list \<times> int" where
  "process_payment fails now current_timestamp st =
     (case st of (db, current_order, order_number) \<Rightarrow>
        if current_order = [] then st
        else
          case main_create_order fails now current_timestamp db (payment_items current_order)
                 ''cash'' ''Jane Doe'' of
            (db', Inl e) \<Rightarrow> (db', current_order, order_number)
          | (db', Inr order_id) \<Rightarrow> (db', panel_clear_order current_order, order_number + 1))"

section \<open>Catalog and inventory queries\<close>

text \<open>
  \<^verbatim>\<open>ORDER BY\<close> sorts the selected rows by the key; text compares bytewise. Rows with equal
  keys are kept in table order here, which the engine does not promise: the theorems below
  speak of the content and of the order of the keys only.

  \<^verbatim>\<open>DatabaseManager.get_products_by_category\<close> of database/db_manager.py.
\<close>

definition get_products_by_category :: "database \<Rightarrow> string \<Rightarrow> product_row list" where
  "get_products_by_category db category =
     sort_key p_name
       (filter (\<lambda>p. p_category p = category \<and> p_is_available p = 1) (t_products db))"

text \<open>\<^verbatim>\<open>DatabaseManager.get_products_by_category\<close> of main.py.\<close>

definition main_get_products_by_category :: "database \<Rightarrow> string \<Rightarrow> product_row list" where
  "main_get_products_by_category db category =
     (if category = ''All''
      then sort_key (\<lambda>p. (p_category p, p_name p))
             (filter (\<lambda>p. p_is_available p = 1) (t_products db))
      else sort_key p_name
             (filter (\<lambda>p. p_category p = category \<and> p_is_available p = 1) (t_products db)))"

text \<open>
  \<^verbatim>\<open>DatabaseManager.get_low_stock_items\<close>: the join of \<^verbatim>\<open>products\<close> and \<^verbatim>\<open>inventory\<close> on the
  product id, restricted to \<^verbatim>\<open>current_stock <= min_stock\<close>, as triples
  (name, current_stock, min_stock) ordered by current_stock.
\<close>

definition get_low_stock_items :: "database \<Rightarrow> (string \<times> int \<times> int) list" where
  "get_low_stock_items db =
     sort_key (\<lambda>row. fst (snd row))
       (concat (map (\<lambda>p. map (\<lambda>i. (p_name p, inv_current_stock i, inv_min_stock i))
                           (filter (\<lambda>i. p_id p = inv_product_id i
                                         \<and> inv_current_stock i \<le> inv_min_stock i)
                              (t_inventory db)))
                  (t_products db)))"

section \<open>Dates\<close>

text \<open>
  The calendar of \<^verbatim>\<open>datetime\<close>: years 1 to 9999, and \<^verbatim>\<open>dt + timedelta(days=n)\<close>,
  \<^verbatim>\<open>dt - timedelta(days=n)\<close> as repeated steps of one day, which keep the time of day.
  \<open>None\<close> stands for \<^verbatim>\<open>OverflowError\<close> (the result would leave the range of years).
\<close>

definition is_leap :: "nat \<Rightarrow> bool" where
  "is_leap y \<longleftrightarrow> y mod 4 = 0 \<and> (y mod 100 \<noteq> 0 \<or> y mod 400 = 0)"

definition days_in_month :: "nat \<Rightarrow> nat \<Rightarrow> nat" where
  "days_in_month y m =
     (if m = 2 then (if is_leap y then 29 else 28)
      else if m = 4 \<or> m = 6 \<or> m = 9 \<or> m = 11 then 30 else 31)"

definition valid_datetime :: "datetime \<Rightarrow> bool" where
  "valid_datetime t \<longleftrightarrow>
     1 \<le> dt_year t \<and> dt_year t \<le> 9999 \<and> 1 \<le> dt_month t \<and> dt_month t \<le> 12 \<and>
     1 \<le> dt_day t \<and> dt_day t \<le> days_in_month (dt_year t) (dt_month t) \<and>
     dt_hour t < 24 \<and> dt_minute t < 60 \<and> dt_second t < 60"

definition next_day :: "datetime \<Rightarrow> datetime option" where
  "next_day t =
     (if dt_day t < days_in_month (dt_year t) (dt_month t) then Some (t\<lparr>dt_day := dt_day t + 1\<rparr>)
      else if dt_month t < 12 then Some (t\<lparr>dt_month := dt_month t + 1, dt_day := 1\<rparr>)
      else if dt_year t < 9999 then Some (t\<lparr>dt_year := dt_year t + 1, dt_month := 1, dt_day := 1\<rparr>)
      else None)"

definition prev_day :: "datetime \<Rightarrow> datetime option" where
  "prev_day t =
     (if 1 < dt_day t then Some (t\<lparr>dt_day := dt_day t - 1\<rparr>)
      else if 1 < dt_month t
        then Some (t\<lparr>dt_month := dt_month t - 1,
                     dt_day := days_in_month (dt_year t) (dt_month t - 1)\<rparr>)
      else if 1 < dt_year t then Some (t\<lparr>dt_year := dt_year t - 1, dt_month := 12, dt_day := 31\<rparr>)
      else None)"

primrec plus_days :: "datetime \<Rightarrow> nat \<Rightarrow> datetime option" where
  "plus_days t 0 = Some t"
| "plus_days t (Suc n) = (case plus_days t n of None \<Rightarrow> None | Some t' \<Rightarrow> next_day t')"

primrec minus_days :: "datetime \<Rightarrow> nat \<Rightarrow> datetime option" where
  "minus_days t 0 = Some t"
| "minus_days t (Suc n) = (case minus_days t n of None \<Rightarrow> None | Some t' \<Rightarrow> prev_day t')"

text \<open>The calendar date of a \<^verbatim>\<open>datetime\<close>.\<close>

definition date_of :: "datetime \<Rightarrow> nat \<times> nat \<times> nat" where
  "date_of t = (dt_year t, dt_month t, dt_day t)"

section \<open>The random source\<close>

text \<open>
  Module \<^verbatim>\<open>random\<close> is modelled over a tape of raw draws, one natural number for each call
  of the generator; a draw reads the head of the tape and moves on. Each library function
  turns raw draws into a value of its documented range.
\<close>

type_synonym rng = "nat \<Rightarrow> nat"

definition draw :: "rng \<Rightarrow> nat \<times> rng" where
  "draw g = (g 0, \<lambda>i. g (Suc i))"

text \<open>\<^verbatim>\<open>random.randint(a, b)\<close>, called with \<open>a \<le> b\<close>: an integer \<open>N\<close> with \<open>a \<le> N \<le> b\<close>.\<close>

definition randint :: "int \<Rightarrow> int \<Rightarrow> rng \<Rightarrow> int \<times> rng" where
  "randint a b g = (case draw g of (r, g') \<Rightarrow> (a + int r mod (b - a + 1), g'))"

text \<open>\<^verbatim>\<open>random.random()\<close>: a multiple of \<open>2\<^sup>-\<^sup>5\<^sup>3\<close> in the interval from 0 to 1, 1 excluded.\<close>

definition random_unit :: "rng \<Rightarrow> rat \<times> rng" where
  "random_unit g = (case draw g of (r, g') \<Rightarrow> (of_int (int r mod 2 ^ 53) / 2 ^ 53, g'))"

text \<open>\<^verbatim>\<open>random.choice(seq)\<close>; \<^verbatim>\<open>IndexError\<close> on an empty sequence.\<close>

definition choice :: "'a list \<Rightarrow> rng \<Rightarrow> error + ('a \<times> rng)" where
  "choice seq g =
     (if seq = [] then Inl IndexError
      else case draw g of (r, g') \<Rightarrow> Inr (seq ! (r mod length seq), g'))"

text \<open>
  \<^verbatim>\<open>random.sample(population, k)\<close>: \<open>k\<close> elements at distinct positions of the population,
  chosen one after the other among the positions not yet taken; \<^verbatim>\<open>ValueError\<close> when \<open>k\<close>
  is larger than the population.
\<close>

fun sample_from :: "'a list \<Rightarrow> nat \<Rightarrow> rng \<Rightarrow> 'a list \<times> rng" where
  "sample_from pool 0 g = ([], g)"
| "sample_from pool (Suc k) g =
     (if pool = [] then ([], g)
      else case draw g of (r, g') \<Rightarrow>
        let j = r mod length pool in
        case sample_from (take j pool @ drop (Suc j) pool) k g' of
          (chosen, g'') \<Rightarrow> (pool ! j # chosen, g''))"

definition random_sample :: "'a list \<Rightarrow> nat \<Rightarrow> rng \<Rightarrow> error + ('a list \<times> rng)" where
  "random_sample population k g =
     (if length population < k then Inl ValueError else Inr (sample_from population k g))"

section \<open>The Historical Synthesizer\<close>

text \<open>
  The loop \<^verbatim>\<open>for product_id, price in selected_products\<close> of \<^verbatim>\<open>_generate_dummy_orders\<close>, on
  the variables \<^verbatim>\<open>subtotal\<close> and \<^verbatim>\<open>order_items\<close> and the random source.
\<close>

fun order_items_loop ::
  "(int \<times> money) list \<Rightarrow> money \<Rightarrow> (int \<times> int \<times> money) list \<Rightarrow> rng
     \<Rightarrow> money \<times> (int \<times> int \<times> money) list \<times> rng" where
  "order_items_loop [] subtotal order_items g = (subtotal, order_items, g)"
| "order_items_loop ((product_id, price) # rest) subtotal order_items g =
     (case randint 1 3 g of (quantity, g') \<Rightarrow>
        let item_total = price * of_int quantity in
        order_items_loop rest (subtotal + item_total)
          (order_items @ [(product_id, quantity, price)]) g')"

text \<open>The loop that inserts the item rows; column \<^verbatim>\<open>customizations\<close> is not given.\<close>

fun insert_generated_items :: "int \<Rightarrow> (int \<times> int \<times> money) list \<Rightarrow> database \<Rightarrow> database" where
  "insert_generated_items order_id [] db = db"
| "insert_generated_items order_id ((product_id, quantity, unit_price) # rest) db =
     insert_generated_items order_id rest
       (insert_order_item db order_id product_id quantity unit_price None)"

text \<open>
  The line \<^verbatim>\<open>order_number = f"ORD{order_date.strftime('%Y%m%d')}{order_num:03d}"\<close>: the
  synthetic date and the sequence number of the day, zero-padded to three digits.
\<close>

definition order_number_of :: "datetime \<Rightarrow> nat \<Rightarrow> string" where
  "order_number_of order_date order_num =
     ''ORD'' @ strftime_Ymd order_date @ zfill 3 (str_nat order_num)"

text \<open>
  The body of the loop \<^verbatim>\<open>for order_num in range(daily_orders)\<close>, on the working tables and
  the random source. The condition of \<^verbatim>\<open>random.choice(customers) if random.random() < 0.7
  else None\<close> is drawn first.
\<close>

definition generate_order ::
  "(int \<times> money) list \<Rightarrow> int list \<Rightarrow> datetime \<Rightarrow> nat \<Rightarrow> database \<times> rng
     \<Rightarrow> error + (database \<times> rng)" where
  "generate_order products customers order_date order_num st =
     (case st of (db, g) \<Rightarrow>
      let order_number = order_number_of order_date order_num in
      case random_unit g of (u, g1) \<Rightarrow>
      case (if u < 7 / 10
            then (case choice customers g1 of
                    Inl e \<Rightarrow> Inl e
                  | Inr (c, g') \<Rightarrow> Inr (Some c, g'))
            else Inr (None, g1)) of
        Inl e \<Rightarrow> Inl e
      | Inr (customer_id, g2) \<Rightarrow>
      case randint 1 4 g2 of (num_items, g3) \<Rightarrow>
      case random_sample products (min (nat num_items) (length products)) g3 of
        Inl e \<Rightarrow> Inl e
      | Inr (selected_products, g4) \<Rightarrow>
      case order_items_loop selected_products 0 [] g4 of (subtotal, order_items, g5) \<Rightarrow>
      let tax = subtotal * (8 / 100);
          total' = subtotal + tax in
      case choice [''cash'', ''card'', ''mobile''] g5 of
        Inl e \<Rightarrow> Inl e
      | Inr (payment_method, g6) \<Rightarrow>
      case choice [''Jane Doe'', ''John Cashier'', ''Alice Brown''] g6 of
        Inl e \<Rightarrow> Inl e
      | Inr (cashier, g7) \<Rightarrow>
      case insert_order db customer_id order_number subtotal tax total' payment_method cashier
             order_date of
        Inl e \<Rightarrow> Inl e
      | Inr (db1, order_id) \<Rightarrow> Inr (insert_generated_items order_id order_items db1, g7))"

text \<open>The loop over \<^verbatim>\<open>range(daily_orders)\<close>; an exception ends it.\<close>

fun orders_loop ::
  "(int \<times> money) list \<Rightarrow> int list \<Rightarrow> datetime \<Rightarrow> nat list \<Rightarrow> database \<times> rng
     \<Rightarrow> error + (database \<times> rng)" where
  "orders_loop products customers order_date [] st = Inr st"
| "orders_loop products customers order_date (order_num # rest) st =
     (case generate_order products customers order_date order_num st of
        Inl e \<Rightarrow> Inl e
      | Inr st' \<Rightarrow> orders_loop products customers order_date rest st')"

text \<open>The loop over \<^verbatim>\<open>range(30)\<close>.\<close>

fun days_loop ::
  "(int \<times> money) list \<Rightarrow> int list \<Rightarrow> datetime \<Rightarrow> nat list \<Rightarrow> database \<times> rng
     \<Rightarrow> error + (database \<times> rng)" where
  "days_loop products customers start_date [] st = Inr st"
| "days_loop products customers start_date (day # rest) st =
     (case plus_days start_date day of
        None \<Rightarrow> Inl OverflowError
      | Some order_date \<Rightarrow>
          (case st of (db, g) \<Rightarrow>
           case randint 5 15 g of (daily_orders, g') \<Rightarrow>
           case orders_loop products customers order_date [0..<nat daily_orders] (db, g') of
             Inl e \<Rightarrow> Inl e
           | Inr st' \<Rightarrow> days_loop products customers start_date rest st'))"

text \<open>
  \<^verbatim>\<open>DatabaseManager._generate_dummy_orders\<close>, on the working tables of the transaction of
  \<^verbatim>\<open>_populate_dummy_data\<close>; \<open>now\<close> is the value of \<^verbatim>\<open>datetime.now()\<close>.
\<close>

definition generate_dummy_orders :: "datetime \<Rightarrow> database \<Rightarrow> rng \<Rightarrow> error + (database \<times> rng)" where
  "generate_dummy_orders now db g =
     (let products = map (\<lambda>p. (p_id p, p_price p)) (t_products db);
          customers = map c_id (t_customers db)
      in case minus_days now 30 of
           None \<Rightarrow> Inl OverflowError
         | Some start_date \<Rightarrow> days_loop products customers start_date [0..<30] (db, g))"

section \<open>Invariants and example data\<close>

text \<open>The invariant of the two carts: distinct product ids, quantities at least 1.\<close>

definition tab_cart_ok :: "order_line list \<Rightarrow> bool" where
  "tab_cart_ok cart \<longleftrightarrow>
     distinct (map (p_id \<circ> l_product) cart) \<and> list_all (\<lambda>i. 1 \<le> l_quantity i) cart"

definition simple_cart_ok :: "simple_item list \<Rightarrow> bool" where
  "simple_cart_ok cart \<longleftrightarrow> distinct (map s_id cart) \<and> list_all (\<lambda>i. 1 \<le> s_quantity i) cart"

text \<open>A product of the seeded catalog.\<close>

definition latte :: product_row where
  "latte = \<lparr>p_id = 2, p_name = ''Latte'', p_category = ''Coffee'', p_price = 7 / 2,
     p_description = ''Smooth espresso with steamed milk'', p_image_url = [], p_is_available = 1\<rparr>"

text \<open>
  Following the spec's words: \<^verbatim>\<open>round(x, 2)\<close>, rounding to two decimals, a tie going to the
  even neighbour.
\<close>

definition spec_round2 :: "rat \<Rightarrow> rat" where
  "spec_round2 x =
     (let s = x * 100; f = \<lfloor>s\<rfloor>; r = s - of_int f
      in of_int (if r < 1 / 2 then f else if 1 / 2 < r then f + 1
                 else if even f then f else f + 1) / 100)"

text \<open>What an \<^verbatim>\<open>order_items\<close> row says about the sale: order, product, quantity, price.\<close>

definition item_key :: "order_item_row \<Rightarrow> int \<times> int \<times> int \<times> money" where
  "item_key r = (oi_order_id r, oi_product_id r, oi_quantity r, oi_unit_price r)"

text \<open>A time of day, a storage engine that never fails, and the example cart of the spec.\<close>

definition t0 :: datetime where
  "t0 = \<lparr>dt_year = 2024, dt_month = 1, dt_day = 15, dt_hour = 10, dt_minute = 30, dt_second = 45\<rparr>"

definition no_fault :: "nat \<Rightarrow> bool" where
  "no_fault k = False"

definition example_items :: "order_item list" where
  "example_items =
     [\<lparr>i_product_id = 2, i_quantity = 2, i_unit_price = 7 / 2, i_customizations = None\<rparr>,
      \<lparr>i_product_id = 11, i_quantity = 1, i_unit_price = 2, i_customizations = None\<rparr>]"

definition example_cart :: "order_line list" where
  "example_cart =
     [\<lparr>l_product = latte, l_quantity = 2, l_customizations = []\<rparr>,
      \<lparr>l_product = latte\<lparr>p_id := 11, p_name := ''Croissant'', p_category := ''Pastries'',
                          p_price := 2\<rparr>, l_quantity = 1, l_customizations = []\<rparr>]"

definition example_simple_cart :: "simple_item list" where
  "example_simple_cart =
     [\<lparr>s_id = 2, s_name = ''Latte'', s_price = 7 / 2, s_quantity = 2\<rparr>,
      \<lparr>s_id = 7, s_name = ''Croissant'', s_price = 2, s_quantity = 1\<rparr>]"

text \<open>Inputs that are not in the seeded catalog: a price of 0.99, a quantity of 0.\<close>

definition odd_price_item :: order_item where
  "odd_price_item = \<lparr>i_product_id = 1, i_quantity = 1, i_unit_price = 99 / 100,
     i_customizations = None\<rparr>"

definition odd_price_cart :: "simple_item list" where
  "odd_price_cart = [\<lparr>s_id = 1, s_name = ''Espresso'', s_price = 99 / 100, s_quantity = 1\<rparr>]"

definition zero_quantity_item :: order_item where
  "zero_quantity_item = \<lparr>i_product_id = 1, i_quantity = 0, i_unit_price = 5 / 2,
     i_customizations = None\<rparr>"

text \<open>The tables after the example cart was finalized on the empty database.\<close>

definition db_after_first_order :: database where
  "db_after_first_order =
     fst (create_order no_fault t0 t0 empty_db None example_items ''cash'' ''Jane Doe'')"

text \<open>A small catalog with one product that is not available, and its stock levels.\<close>

definition example_catalog :: database where
  "example_catalog = empty_db
     \<lparr>t_products :=
        [latte,
         latte\<lparr>p_id := 1, p_name := ''Espresso'', p_price := 5 / 2\<rparr>,
         latte\<lparr>p_id := 7, p_name := ''Earl Grey'', p_category := ''Tea'', p_price := 11 / 4\<rparr>,
         latte\<lparr>p_id := 11, p_name := ''Croissant'', p_category := ''Pastries'', p_price := 2,
               p_is_available := 0\<rparr>],
      t_inventory :=
        [\<lparr>inv_id = 1, inv_product_id = 1, inv_current_stock = 20, inv_min_stock = 10,
          inv_max_stock = 100\<rparr>,
         \<lparr>inv_id = 2, inv_product_id = 2, inv_current_stock = 10, inv_min_stock = 10,
          inv_max_stock = 100\<rparr>,
         \<lparr>inv_id = 3, inv_product_id = 7, inv_current_stock = 4, inv_min_stock = 10,
          inv_max_stock = 100\<rparr>]\<rparr>"

text \<open>The last \<open>w\<close> decimal digits of a number, the fixed-width form used in the proofs.\<close>

primrec digits :: "nat \<Rightarrow> nat \<Rightarrow> string" where
  "digits 0 n = []"
| "digits (Suc w) n = digits w (n div 10) @ [digit_char (n mod 10)]"

text \<open>The bounds on the fields of a date that make its eight-digit form unambiguous.\<close>

definition small_date :: "datetime \<Rightarrow> bool" where
  "small_date t \<longleftrightarrow> dt_year t \<le> 9999 \<and> dt_month t \<le> 12 \<and> dt_day t \<le> 31"

text \<open>The item rows of an order.\<close>

definition items_of :: "database \<Rightarrow> int \<Rightarrow> order_item_row list" where
  "items_of db order_id = filter (\<lambda>r. oi_order_id r = order_id) (t_order_items db)"

text \<open>
  What the synthesizer keeps true of the working tables: every item row belongs to a stored
  order, and every stored order has between 1 and 4 item rows, on distinct products of the
  catalog.
\<close>

definition orders_ok :: "int list \<Rightarrow> database \<Rightarrow> bool" where
  "orders_ok pids db \<longleftrightarrow>
     (\<forall>r\<in>set (t_order_items db). oi_order_id r \<in> set (map o_id (t_orders db))) \<and>
     (\<forall>row\<in>set (t_orders db).
        1 \<le> length (items_of db (o_id row)) \<and> length (items_of db (o_id row)) \<le> 4 \<and>
        distinct (map oi_product_id (items_of db (o_id row))) \<and>
        set (map oi_product_id (items_of db (o_id row))) \<subseteq> set pids)"

text \<open>The creation date and the number of a stored order.\<close>

definition order_key :: "order_row \<Rightarrow> datetime \<times> string" where
  "order_key r = (o_created_at r, o_order_number r)"

text \<open>The dates and numbers of a run that makes \<open>c day\<close> orders on each day of the list.\<close>

definition day_keys :: "(nat \<Rightarrow> datetime) \<Rightarrow> (nat \<Rightarrow> nat) \<Rightarrow> nat list \<Rightarrow> (datetime \<times> string) list" where
  "day_keys date c ds =
     concat (map (\<lambda>day. map (\<lambda>n. (date day, order_number_of (date day) n)) [0..<c day]) ds)"

text \<open>The example catalog with one customer, and a tape of raw draws.\<close>

definition seeded_db :: database where
  "seeded_db = example_catalog
     \<lparr>t_customers := [\<lparr>c_id = 1, c_name = ''John Smith'', c_email = ''john@email.com'',
                        c_phone = ''555-0101'', c_loyalty_points = 50\<rparr>]\<rparr>"

definition example_rng :: rng where
  "example_rng i = 7 * i + 3"

section \<open>The cart: merging and invariant\<close>

lemma bump_line_None: "bump_line pid cart = None \<longleftrightarrow> pid \<notin> set (map (p_id \<circ> l_product) cart)"
  by (induction cart) auto

lemma bump_line_Some_ids:
  "bump_line pid cart = Some cart' \<Longrightarrow> map (p_id \<circ> l_product) cart' = map (p_id \<circ> l_product) cart"
  by (induction cart arbitrary: cart') (auto split: if_splits)

lemma bump_line_Some_qty:
  "bump_line pid cart = Some cart' \<Longrightarrow> list_all (\<lambda>i. 1 \<le> l_quantity i) cart
    \<Longrightarrow> list_all (\<lambda>i. 1 \<le> l_quantity i) cart'"
  by (induction cart arbitrary: cart') (auto split: if_splits)

lemma bump_line_split:
  "\<forall>x\<in>set pre. p_id (l_product x) \<noteq> pid \<Longrightarrow> p_id (l_product item) = pid \<Longrightarrow>
   bump_line pid (pre @ item # post) = Some (pre @ item\<lparr>l_quantity := l_quantity item + 1\<rparr> # post)"
  by (induction pre) auto

lemma simple_bump_None: "simple_bump pid cart = None \<longleftrightarrow> pid \<notin> set (map s_id cart)"
  by (induction cart) auto

lemma simple_bump_Some_ids:
  "simple_bump pid cart = Some cart' \<Longrightarrow> map s_id cart' = map s_id cart"
  by (induction cart arbitrary: cart') (auto split: if_splits)

lemma simple_bump_Some_qty:
  "simple_bump pid cart = Some cart' \<Longrightarrow> list_all (\<lambda>i. 1 \<le> s_quantity i) cart
    \<Longrightarrow> list_all (\<lambda>i. 1 \<le> s_quantity i) cart'"
  by (induction cart arbitrary: cart') (auto split: if_splits)

lemma simple_bump_split:
  "\<forall>x\<in>set pre. s_id x \<noteq> pid \<Longrightarrow> s_id item = pid \<Longrightarrow>
   simple_bump pid (pre @ item # post) = Some (pre @ item\<lparr>s_quantity := s_quantity item + 1\<rparr> # post)"
  by (induction pre) auto

lemma add_to_order_fresh:
  assumes "\<forall>x\<in>set cart. p_id (l_product x) \<noteq> p_id product"
  shows "add_to_order cart product =
     cart @ [\<lparr>l_product = product, l_quantity = 1, l_customizations = []\<rparr>]"
proof -
  have "bump_line (p_id product) cart = None"
    using assms by (auto simp: bump_line_None)
  then show ?thesis by (simp add: add_to_order_def)
qed

lemma add_to_order_present:
  assumes "\<forall>x\<in>set pre. p_id (l_product x) \<noteq> p_id product"
    and "p_id (l_product item) = p_id product"
  shows "add_to_order (pre @ item # post) product =
     pre @ item\<lparr>l_quantity := l_quantity item + 1\<rparr> # post"
  using bump_line_split [OF assms, of post] by (simp add: add_to_order_def)

lemma simple_add_fresh:
  assumes "\<forall>x\<in>set cart. s_id x \<noteq> pid"
  shows "simple_add_to_order cart (pid, name, price) =
     cart @ [\<lparr>s_id = pid, s_name = name, s_price = price, s_quantity = 1\<rparr>]"
proof -
  have "simple_bump pid cart = None"
    using assms by (auto simp: simple_bump_None)
  then show ?thesis by (simp add: simple_add_to_order_def)
qed

lemma simple_add_present:
  assumes "\<forall>x\<in>set pre. s_id x \<noteq> pid" and "s_id item = pid"
  shows "simple_add_to_order (pre @ item # post) (pid, name, price) =
     pre @ item\<lparr>s_quantity := s_quantity item + 1\<rparr> # post"
  using simple_bump_split [OF assms, of post] by (simp add: simple_add_to_order_def)

text \<open>
  Claim C7. \<^verbatim>\<open>add(product)\<close> appends a new line with quantity 1 and empty customizations when
  no line has the product's id, so that adding the same product twice to such a cart leaves
  exactly one line for it, with quantity 2; when a line with the id exists, the first such
  line gets its quantity raised by 1 and nothing else changes. Both for the cart of
  modules/new_order_tab.py and for the cart of simple_pos.py.
\<close>

theorem add_same_product_twice:
  "((\<forall>x\<in>set cart. p_id (l_product x) \<noteq> p_id product) \<longrightarrow>
      add_to_order cart product =
        cart @ [\<lparr>l_product = product, l_quantity = 1, l_customizations = []\<rparr>] \<and>
      add_to_order (add_to_order cart product) product =
        cart @ [\<lparr>l_product = product, l_quantity = 2, l_customizations = []\<rparr>]) \<and>
   ((\<forall>x\<in>set pre. p_id (l_product x) \<noteq> p_id product) \<and> p_id (l_product item) = p_id product \<longrightarrow>
      add_to_order (pre @ item # post) product =
        pre @ item\<lparr>l_quantity := l_quantity item + 1\<rparr> # post) \<and>
   ((\<forall>x\<in>set scart. s_id x \<noteq> pid) \<longrightarrow>
      simple_add_to_order scart (pid, name, price) =
        scart @ [\<lparr>s_id = pid, s_name = name, s_price = price, s_quantity = 1\<rparr>] \<and>
      simple_add_to_order (simple_add_to_order scart (pid, name, price)) (pid, name, price) =
        scart @ [\<lparr>s_id = pid, s_name = name, s_price = price, s_quantity = 2\<rparr>]) \<and>
   ((\<forall>x\<in>set spre. s_id x \<noteq> pid) \<and> s_id sitem = pid \<longrightarrow>
      simple_add_to_order (spre @ sitem # spost) (pid, name, price) =
        spre @ sitem\<lparr>s_quantity := s_quantity sitem + 1\<rparr> # spost)"
proof (intro conjI impI)
  assume fresh: "\<forall>x\<in>set cart. p_id (l_product x) \<noteq> p_id product"
  show one: "add_to_order cart product =
      cart @ [\<lparr>l_product = product, l_quantity = 1, l_customizations = []\<rparr>]"
    by (rule add_to_order_fresh [OF fresh])
  show "add_to_order (add_to_order cart product) product =
      cart @ [\<lparr>l_product = product, l_quantity = 2, l_customizations = []\<rparr>]"
    unfolding one
    using add_to_order_present [OF fresh, of
        "\<lparr>l_product = product, l_quantity = 1, l_customizations = []\<rparr>" "[]"]
    by simp
next
  assume "(\<forall>x\<in>set pre. p_id (l_product x) \<noteq> p_id product) \<and> p_id (l_product item) = p_id product"
  then show "add_to_order (pre @ item # post) product =
      pre @ item\<lparr>l_quantity := l_quantity item + 1\<rparr> # post"
    by (simp add: add_to_order_present)
next
  assume fresh: "\<forall>x\<in>set scart. s_id x \<noteq> pid"
  show one: "simple_add_to_order scart (pid, name, price) =
      scart @ [\<lparr>s_id = pid, s_name = name, s_price = price, s_quantity = 1\<rparr>]"
    by (rule simple_add_fresh [OF fresh])
  show "simple_add_to_order (simple_add_to_order scart (pid, name, price)) (pid, name, price) =
      scart @ [\<lparr>s_id = pid, s_name = name, s_price = price, s_quantity = 2\<rparr>]"
    unfolding one
    using simple_add_present [OF fresh, of
        "\<lparr>s_id = pid, s_name = name, s_price = price, s_quantity = 1\<rparr>" "[]" name price]
    by simp
next
  assume "(\<forall>x\<in>set spre. s_id x \<noteq> pid) \<and> s_id sitem = pid"
  then show "simple_add_to_order (spre @ sitem # spost) (pid, name, price) =
      spre @ sitem\<lparr>s_quantity := s_quantity sitem + 1\<rparr> # spost"
    by (simp add: simple_add_present)
qed

text \<open>The theorem at the empty cart and at a cart that holds the product.\<close>

theorem add_same_product_twice_witness:
  "add_to_order [] latte =
     [\<lparr>l_product = latte, l_quantity = 1, l_customizations = []\<rparr>] \<and>
   add_to_order (add_to_order [] latte) latte =
     [\<lparr>l_product = latte, l_quantity = 2, l_customizations = []\<rparr>] \<and>
   add_to_order [\<lparr>l_product = latte, l_quantity = 2, l_customizations = []\<rparr>] latte =
     [\<lparr>l_product = latte, l_quantity = 3, l_customizations = []\<rparr>] \<and>
   simple_add_to_order [] (2, ''Latte'', 7 / 2) =
     [\<lparr>s_id = 2, s_name = ''Latte'', s_price = 7 / 2, s_quantity = 1\<rparr>] \<and>
   simple_add_to_order (simple_add_to_order [] (2, ''Latte'', 7 / 2)) (2, ''Latte'', 7 / 2) =
     [\<lparr>s_id = 2, s_name = ''Latte'', s_price = 7 / 2, s_quantity = 2\<rparr>] \<and>
   simple_add_to_order [\<lparr>s_id = 2, s_name = ''Latte'', s_price = 7 / 2, s_quantity = 2\<rparr>]
       (2, ''Latte'', 7 / 2) =
     [\<lparr>s_id = 2, s_name = ''Latte'', s_price = 7 / 2, s_quantity = 3\<rparr>]"
  using add_same_product_twice [of "[]" latte "[]"
      "\<lparr>l_product = latte, l_quantity = 2, l_customizations = []\<rparr>" "[]" "[]" 2
      "''Latte''" "7 / 2" "[]" "\<lparr>s_id = 2, s_name = ''Latte'', s_price = 7 / 2, s_quantity = 2\<rparr>" "[]"]
  by (simp (no_asm_use))

lemma add_to_order_inv:
  assumes "distinct (map (p_id \<circ> l_product) cart)" "list_all (\<lambda>i. 1 \<le> l_quantity i) cart"
  shows "distinct (map (p_id \<circ> l_product) (add_to_order cart product)) \<and>
         list_all (\<lambda>i. 1 \<le> l_quantity i) (add_to_order cart product)"
proof (cases "bump_line (p_id product) cart")
  case None
  then have "p_id product \<notin> set (map (p_id \<circ> l_product) cart)"
    by (simp add: bump_line_None)
  then show ?thesis using assms None by (simp add: add_to_order_def)
next
  case (Some cart')
  then show ?thesis using assms bump_line_Some_ids [OF Some] bump_line_Some_qty [OF Some]
    by (simp add: add_to_order_def)
qed

lemma remove_from_order_inv:
  assumes "distinct (map (p_id \<circ> l_product) cart)" "list_all (\<lambda>i. 1 \<le> l_quantity i) cart"
    and "remove_from_order cart item = Inr cart'"
  shows "distinct (map (p_id \<circ> l_product) cart') \<and> list_all (\<lambda>i. 1 \<le> l_quantity i) cart'"
proof -
  have c: "cart' = remove1 item cart"
    using assms(3) by (auto simp: remove_from_order_def split: if_splits)
  have "distinct (map (p_id \<circ> l_product) (remove1 item cart))"
    using assms(1) by (auto simp: distinct_map inj_on_diff)
  moreover have "list_all (\<lambda>i. 1 \<le> l_quantity i) (remove1 item cart)"
    using assms(2) by (auto simp: list_all_iff dest: notin_set_remove1)
  ultimately show ?thesis by (simp add: c)
qed

lemma tab_step_inv: "tab_cart_ok (fst st) \<Longrightarrow> tab_cart_ok (fst (tab_step st op))"
proof (cases st)
  case (Pair cart n)
  assume ok: "tab_cart_ok (fst st)"
  show ?thesis
  proof (cases op)
    case (TabAdd product)
    then show ?thesis using ok Pair add_to_order_inv [of cart product]
      by (simp add: tab_cart_ok_def)
  next
    case (TabRemove item)
    show ?thesis
    proof (cases "remove_from_order cart item")
      case (Inl e)
      then show ?thesis using ok Pair TabRemove by simp
    next
      case (Inr cart')
      then show ?thesis using ok Pair TabRemove remove_from_order_inv [of cart item cart']
        by (simp add: tab_cart_ok_def)
    qed
  next
    case TabCharge
    then show ?thesis using ok Pair by (simp add: tab_process_payment_def tab_cart_ok_def)
  qed
qed

lemma tab_run_inv: "tab_cart_ok (fst st) \<Longrightarrow> tab_cart_ok (fst (foldl tab_step st ops))"
  by (induction ops arbitrary: st) (auto simp: tab_step_inv)

lemma simple_step_inv: "simple_cart_ok cart \<Longrightarrow> simple_cart_ok (simple_step cart op)"
proof (cases op)
  case (SimpleAdd product)
  assume ok: "simple_cart_ok cart"
  obtain pid name price where p: "product = (pid, name, price)" by (cases product)
  show ?thesis
  proof (cases "simple_bump pid cart")
    case None
    then have "pid \<notin> set (map s_id cart)"
      by (simp add: simple_bump_None)
    then show ?thesis using ok SimpleAdd p None
      by (simp add: simple_cart_ok_def simple_add_to_order_def)
  next
    case (Some cart')
    then show ?thesis
      using ok SimpleAdd p simple_bump_Some_ids [OF Some] simple_bump_Some_qty [OF Some]
      by (simp add: simple_cart_ok_def simple_add_to_order_def)
  qed
next
  case (SimpleRemove pid)
  assume ok: "simple_cart_ok cart"
  then show ?thesis using SimpleRemove
    by (auto simp: simple_cart_ok_def simple_remove_from_order_def distinct_map_filter list_all_iff)
next
  case SimpleClear
  then show ?thesis by (simp add: simple_cart_ok_def simple_clear_order_def)
qed

lemma simple_run_inv: "simple_cart_ok cart \<Longrightarrow> simple_cart_ok (foldl simple_step cart ops)"
  by (induction ops arbitrary: cart) (auto simp: simple_step_inv)

lemma distinct_filter_le1:
  "distinct (map f xs) \<Longrightarrow> length (filter (\<lambda>x. f x = k) xs) \<le> 1"
  by (induction xs) (auto simp: filter_empty_conv image_iff)

lemma length_filter_neq:
  "length (filter (\<lambda>x. f x \<noteq> k) xs) + length (filter (\<lambda>x. f x = k) xs) = length xs"
  by (induction xs) auto

text \<open>
  Claim C10. Starting from the empty cart, after any sequence of add, remove and clear
  (charge) operations the lines of the cart have pairwise distinct product ids and each
  quantity is at least 1; hence at most one line carries a given product id, and removing a
  product id deletes at most one line.
\<close>

theorem cart_invariant:
  "distinct (map (p_id \<circ> l_product) (fst (foldl tab_step ([], n) ops))) \<and>
   list_all (\<lambda>i. 1 \<le> l_quantity i) (fst (foldl tab_step ([], n) ops)) \<and>
   distinct (map s_id (foldl simple_step [] sops)) \<and>
   list_all (\<lambda>i. 1 \<le> s_quantity i) (foldl simple_step [] sops) \<and>
   length (foldl simple_step [] sops)
     \<le> length (simple_remove_from_order (foldl simple_step [] sops) product_id) + 1 \<and>
   length (filter (\<lambda>i. p_id (l_product i) = product_id) (fst (foldl tab_step ([], n) ops))) \<le> 1 \<and>
   length (filter (\<lambda>i. s_id i = product_id) (foldl simple_step [] sops)) \<le> 1"
proof -
  have t: "tab_cart_ok (fst (foldl tab_step ([], n) ops))"
    by (rule tab_run_inv) (simp add: tab_cart_ok_def)
  have s: "simple_cart_ok (foldl simple_step [] sops)"
    by (rule simple_run_inv) (simp add: simple_cart_ok_def)
  have d: "distinct (map s_id (foldl simple_step [] sops))"
    using s by (simp add: simple_cart_ok_def)
  have one: "length (filter (\<lambda>i. s_id i = product_id) (foldl simple_step [] sops)) \<le> 1"
    by (rule distinct_filter_le1 [OF d])
  have rem: "length (foldl simple_step [] sops)
     \<le> length (simple_remove_from_order (foldl simple_step [] sops) product_id) + 1"
    using one length_filter_neq [of s_id product_id "foldl simple_step [] sops"]
    by (simp add: simple_remove_from_order_def)
  have td: "distinct (map (p_id \<circ> l_product) (fst (foldl tab_step ([], n) ops)))"
    using t by (simp add: tab_cart_ok_def)
  have tone: "length (filter (\<lambda>i. p_id (l_product i) = product_id)
      (fst (foldl tab_step ([], n) ops))) \<le> 1"
    using distinct_filter_le1 [OF td, of product_id] by simp
  show ?thesis using t s one rem tone by (simp add: tab_cart_ok_def simple_cart_ok_def)
qed


section \<open>The Order Finalizer: totals, atomicity, stored rows\<close>

lemma foldl_add_sum: "foldl (+) a xs = a + sum_list xs" for a :: rat
  by (induction xs arbitrary: a) (auto simp: algebra_simps)

lemma py_sum_eq: "py_sum xs = sum_list xs"
  by (simp add: py_sum_def foldl_add_sum)

lemma fold_max_mono: "s \<le> fold max ids s" for s :: int
proof (induction ids arbitrary: s)
  case Nil
  then show ?case by simp
next
  case (Cons a ids)
  have "s \<le> max a s" by simp
  also have "max a s \<le> fold max ids (max a s)" by (rule Cons.IH)
  finally show ?case by simp
qed

lemma fold_max_ge: "x \<in> set ids \<Longrightarrow> x \<le> fold max ids s" for x :: int
proof (induction ids arbitrary: s)
  case Nil
  then show ?case by simp
next
  case (Cons a ids)
  show ?case
  proof (cases "x = a")
    case True
    have "a \<le> max a s" by simp
    also have "max a s \<le> fold max ids (max a s)" by (rule fold_max_mono)
    finally show ?thesis using True by simp
  next
    case False
    then show ?thesis using Cons by simp
  qed
qed

lemma next_rowid_fresh: "x \<in> set ids \<Longrightarrow> x < next_rowid seq ids"
  using fold_max_ge [of x ids seq] by (simp add: next_rowid_def)

lemma insert_items_Inr:
  "insert_items fails k order_id cf items work = Inr work' \<Longrightarrow>
     t_orders work' = t_orders work \<and> t_products work' = t_products work \<and>
     t_customers work' = t_customers work \<and> t_inventory work' = t_inventory work \<and>
     orders_seq work' = orders_seq work \<and>
     (\<exists>rows. t_order_items work' = t_order_items work @ rows \<and>
        map item_key rows =
          map (\<lambda>i. (order_id, i_product_id i, i_quantity i, i_unit_price i)) items)"
proof (induction items arbitrary: k work)
  case Nil
  then show ?case by simp
next
  case (Cons item rest)
  from Cons.prems have nf: "\<not> fails k" by (auto split: if_splits)
  define w where "w = insert_order_item work order_id (i_product_id item) (i_quantity item)
      (i_unit_price item) (cf item)"
  from Cons.prems nf have "insert_items fails (Suc k) order_id cf rest w = Inr work'"
    by (simp add: w_def)
  from Cons.IH [OF this] obtain rows where
    ih: "t_orders work' = t_orders w" "t_products work' = t_products w"
      "t_customers work' = t_customers w" "t_inventory work' = t_inventory w"
      "orders_seq work' = orders_seq w"
      "t_order_items work' = t_order_items w @ rows"
      "map item_key rows = map (\<lambda>i. (order_id, i_product_id i, i_quantity i, i_unit_price i)) rest"
    by blast
  obtain r where w: "t_order_items w = t_order_items work @ [r]"
      "item_key r = (order_id, i_product_id item, i_quantity item, i_unit_price item)"
      "t_orders w = t_orders work" "t_products w = t_products work"
      "t_customers w = t_customers work" "t_inventory w = t_inventory work"
      "orders_seq w = orders_seq work"
    by (simp add: w_def insert_order_item_def Let_def item_key_def)
  have "t_order_items work' = t_order_items work @ (r # rows)"
    using ih(6) w(1) by simp
  moreover have "map item_key (r # rows) =
      map (\<lambda>i. (order_id, i_product_id i, i_quantity i, i_unit_price i)) (item # rest)"
    using ih(7) w(2) by simp
  ultimately show ?case using ih w by metis
qed

lemma insert_items_fail:
  "\<exists>j<length items. fails (k + j) \<Longrightarrow>
     \<exists>w. insert_items fails k order_id cf items work = Inl (OperationalError, w) \<and>
         t_orders w = t_orders work"
proof (induction items arbitrary: k work)
  case Nil
  then show ?case by simp
next
  case (Cons item rest)
  show ?case
  proof (cases "fails k")
    case True
    then show ?thesis by simp
  next
    case False
    from Cons.prems obtain j where j: "j < length (item # rest)" "fails (k + j)" by blast
    with False have "j \<noteq> 0" by (cases j) auto
    then obtain j' where "j = Suc j'" by (cases j) auto
    with j have ex: "\<exists>j'<length rest. fails (Suc k + j')" by auto
    define w0 where "w0 = insert_order_item work order_id (i_product_id item) (i_quantity item)
      (i_unit_price item) (cf item)"
    have w0: "t_orders w0 = t_orders work"
      by (simp add: w0_def insert_order_item_def Let_def)
    from Cons.IH [OF ex, of w0] obtain w where
      "insert_items fails (Suc k) order_id cf rest w0 = Inl (OperationalError, w)"
      "t_orders w = t_orders w0" by blast
    then show ?thesis using False w0 by (simp add: w0_def)
  qed
qed

lemma insert_items_no_fail:
  "\<forall>j<length items. \<not> fails (k + j) \<Longrightarrow>
     \<exists>w. insert_items fails k order_id cf items work = Inr w"
proof (induction items arbitrary: k work)
  case Nil
  then show ?case by simp
next
  case (Cons item rest)
  from Cons.prems have "\<not> fails k" by force
  moreover from Cons.prems have "\<forall>j<length rest. \<not> fails (Suc k + j)" by force
  ultimately show ?case using Cons.IH by simp
qed

lemma body_steps:
  assumes nf: "\<not> fails 0"
    and fresh: "generate_order_number now \<notin> set (map o_order_number (t_orders db))"
  shows "\<exists>row.
     o_id row = next_rowid (orders_seq db) (map o_id (t_orders db)) \<and>
     o_order_number row = generate_order_number now \<and>
     o_subtotal row = sum_list (map (\<lambda>i. of_int (i_quantity i) * i_unit_price i) items) \<and>
     o_tax row = o_subtotal row * (8 / 100) \<and>
     o_total row = o_subtotal row + o_tax row \<and>
     create_order_body fails now ts db cid cf items pm cashier =
       (case insert_items fails 1 (o_id row) cf items
               (db\<lparr>t_orders := t_orders db @ [row], orders_seq := o_id row\<rparr>) of
          Inl failure \<Rightarrow> Inl failure
        | Inr work' \<Rightarrow> if fails (Suc (length items)) then Inl (OperationalError, work')
                       else Inr (work', o_id row))"
proof -
  define S where "S = py_sum (map (\<lambda>i. of_int (i_quantity i) * i_unit_price i) items)"
  define T where "T = S * (8 / 100)"
  define U where "U = S + T"
  define row where "row = \<lparr>o_id = next_rowid (orders_seq db) (map o_id (t_orders db)),
      o_customer_id = cid, o_order_number = generate_order_number now, o_subtotal = S,
      o_tax = T, o_total = U, o_payment_method = pm, o_status = ''completed'',
      o_cashier_name = cashier, o_created_at = ts\<rparr>"
  have sel: "o_id row = next_rowid (orders_seq db) (map o_id (t_orders db))"
    "o_order_number row = generate_order_number now" "o_subtotal row = S" "o_tax row = T"
    "o_total row = U"
    by (simp_all add: row_def)
  have body: "create_order_body fails now ts db cid cf items pm cashier =
      (if fails 0 then Inl (OperationalError, db)
        else
          case insert_order db cid (generate_order_number now) S T U pm cashier ts of
            Inl e \<Rightarrow> Inl (e, db)
          | Inr (work, order_id) \<Rightarrow>
              (case insert_items fails 1 order_id cf items work of
                 Inl failure \<Rightarrow> Inl failure
               | Inr work' \<Rightarrow>
                   if fails (Suc (length items)) then Inl (OperationalError, work')
                   else Inr (work', order_id)))"
    unfolding create_order_body_def Let_def S_def T_def U_def by (rule refl)
  have ins: "insert_order db cid (generate_order_number now) S T U pm cashier ts =
      Inr (db\<lparr>t_orders := t_orders db @ [row], orders_seq := o_id row\<rparr>, o_id row)"
    using fresh unfolding insert_order_def Let_def row_def by simp
  have "create_order_body fails now ts db cid cf items pm cashier =
       (case insert_items fails 1 (o_id row) cf items
               (db\<lparr>t_orders := t_orders db @ [row], orders_seq := o_id row\<rparr>) of
          Inl failure \<Rightarrow> Inl failure
        | Inr work' \<Rightarrow> if fails (Suc (length items)) then Inl (OperationalError, work')
                       else Inr (work', o_id row))"
    unfolding body ins using nf by simp
  moreover have "o_subtotal row = sum_list (map (\<lambda>i. of_int (i_quantity i) * i_unit_price i) items)"
    by (simp add: sel S_def py_sum_eq)
  moreover have "o_tax row = o_subtotal row * (8 / 100)"
    by (simp only: sel T_def)
  moreover have "o_total row = o_subtotal row + o_tax row"
    by (simp only: sel U_def)
  ultimately show ?thesis using sel(1,2) by blast
qed

lemma body_Inr_pre:
  assumes "create_order_body fails now ts db cid cf items pm cashier = Inr (work, oid)"
  shows "\<not> fails 0"
    and "generate_order_number now \<notin> set (map o_order_number (t_orders db))"
proof -
  show nf: "\<not> fails 0"
    using assms unfolding create_order_body_def Let_def by (auto split: if_splits)
  show "generate_order_number now \<notin> set (map o_order_number (t_orders db))"
  proof
    assume "generate_order_number now \<in> set (map o_order_number (t_orders db))"
    then have "insert_order db cid (generate_order_number now) a b c pm cashier ts
        = Inl IntegrityError" for a b c
      by (simp add: insert_order_def)
    then show False using assms nf unfolding create_order_body_def Let_def by simp
  qed
qed

lemma body_success:
  assumes ok: "create_order_body fails now ts db cid cf items pm cashier = Inr (work, oid)"
  shows "\<exists>row rows.
     t_orders work = t_orders db @ [row] \<and> o_id row = oid \<and>
     oid = next_rowid (orders_seq db) (map o_id (t_orders db)) \<and>
     o_order_number row = generate_order_number now \<and>
     o_subtotal row = sum_list (map (\<lambda>i. of_int (i_quantity i) * i_unit_price i) items) \<and>
     o_tax row = o_subtotal row * (8 / 100) \<and>
     o_total row = o_subtotal row + o_tax row \<and>
     t_order_items work = t_order_items db @ rows \<and>
     map item_key rows = map (\<lambda>i. (oid, i_product_id i, i_quantity i, i_unit_price i)) items"
proof -
  from body_steps [of fails now db items ts cid cf pm cashier, OF body_Inr_pre [OF ok]]
  obtain row where
    row: "o_id row = next_rowid (orders_seq db) (map o_id (t_orders db))"
      "o_order_number row = generate_order_number now"
      "o_subtotal row = sum_list (map (\<lambda>i. of_int (i_quantity i) * i_unit_price i) items)"
      "o_tax row = o_subtotal row * (8 / 100)"
      "o_total row = o_subtotal row + o_tax row"
    and body: "create_order_body fails now ts db cid cf items pm cashier =
       (case insert_items fails 1 (o_id row) cf items
               (db\<lparr>t_orders := t_orders db @ [row], orders_seq := o_id row\<rparr>) of
          Inl failure \<Rightarrow> Inl failure
        | Inr work' \<Rightarrow> if fails (Suc (length items)) then Inl (OperationalError, work')
                       else Inr (work', o_id row))"
    by blast
  define w1 where "w1 = db\<lparr>t_orders := t_orders db @ [row], orders_seq := o_id row\<rparr>"
  from ok body have items: "insert_items fails 1 (o_id row) cf items w1 = Inr work"
    and oid: "oid = o_id row"
    by (auto simp: w1_def split: sum.splits if_splits)
  from insert_items_Inr [OF items] obtain rows where
    r: "t_orders work = t_orders w1" "t_order_items work = t_order_items w1 @ rows"
      "map item_key rows =
         map (\<lambda>i. (o_id row, i_product_id i, i_quantity i, i_unit_price i)) items"
    by blast
  have "t_orders work = t_orders db @ [row]" using r(1) by (simp add: w1_def)
  moreover have "t_order_items work = t_order_items db @ rows" using r(2) by (simp add: w1_def)
  moreover have "map item_key rows =
      map (\<lambda>i. (oid, i_product_id i, i_quantity i, i_unit_price i)) items"
    using r(3) oid by simp
  ultimately show ?thesis using row oid by blast
qed

lemma transaction_Inr:
  "transaction db outcome = (db', Inr oid) \<longleftrightarrow> outcome = Inr (db', oid)"
  by (auto simp: transaction_def split: sum.splits prod.splits)

lemma transaction_Inl:
  "outcome = Inl (e, work) \<Longrightarrow> transaction db outcome = (db, Inl e)"
  by (simp add: transaction_def)

lemma transaction_error_unchanged:
  "snd (transaction db outcome) = Inl e \<Longrightarrow> fst (transaction db outcome) = db"
  by (auto simp: transaction_def split: sum.splits prod.splits)

lemma body_fail_after_order:
  assumes nf: "\<not> fails 0"
    and fresh: "generate_order_number now \<notin> set (map o_order_number (t_orders db))"
    and k: "\<exists>k. 1 \<le> k \<and> k \<le> Suc (length items) \<and> fails k"
  shows "\<exists>work. create_order_body fails now ts db cid cf items pm cashier
            = Inl (OperationalError, work) \<and>
          length (t_orders work) = Suc (length (t_orders db)) \<and>
          generate_order_number now \<in> set (map o_order_number (t_orders work))"
proof -
  from body_steps [of fails now db items ts cid cf pm cashier, OF nf fresh]
  obtain row where num: "o_order_number row = generate_order_number now"
    and body: "create_order_body fails now ts db cid cf items pm cashier =
       (case insert_items fails 1 (o_id row) cf items
               (db\<lparr>t_orders := t_orders db @ [row], orders_seq := o_id row\<rparr>) of
          Inl failure \<Rightarrow> Inl failure
        | Inr work' \<Rightarrow> if fails (Suc (length items)) then Inl (OperationalError, work')
                       else Inr (work', o_id row))"
    by blast
  define w1 where "w1 = db\<lparr>t_orders := t_orders db @ [row], orders_seq := o_id row\<rparr>"
  have w1: "length (t_orders w1) = Suc (length (t_orders db))"
    "generate_order_number now \<in> set (map o_order_number (t_orders w1))"
    using num by (simp_all add: w1_def)
  show ?thesis
  proof (cases "\<exists>j<length items. fails (1 + j)")
    case True
    from insert_items_fail [OF True, of "o_id row" cf w1] obtain w where
      "insert_items fails 1 (o_id row) cf items w1 = Inl (OperationalError, w)"
      "t_orders w = t_orders w1" by blast
    then show ?thesis using body w1 by (simp add: w1_def)
  next
    case False
    then have all: "\<forall>j<length items. \<not> fails (1 + j)" by blast
    from k obtain k where k: "1 \<le> k" "k \<le> Suc (length items)" "fails k" by blast
    have "k = Suc (length items)"
    proof (rule ccontr)
      assume "k \<noteq> Suc (length items)"
      with k have "k - 1 < length items" "1 + (k - 1) = k" by auto
      with all k(3) show False by metis
    qed
    with k have commit: "fails (Suc (length items))" by simp
    from insert_items_no_fail [OF all, of "o_id row" cf w1] obtain w where
      w: "insert_items fails 1 (o_id row) cf items w1 = Inr w" by blast
    from insert_items_Inr [OF w] have "t_orders w = t_orders w1" by blast
    then show ?thesis using body w commit w1 by (simp add: w1_def)
  qed
qed

lemma stored_rows:
  assumes fk: "\<forall>r\<in>set (t_order_items db). oi_order_id r \<in> set (map o_id (t_orders db))"
    and ok: "create_order_body fails now ts db cid cf items pm cashier = Inr (db', oid)"
  shows "\<exists>row. filter (\<lambda>r. o_id r = oid) (t_orders db') = [row] \<and>
           o_subtotal row = sum_list (map (\<lambda>i. of_int (i_quantity i) * i_unit_price i) items) \<and>
           o_tax row = o_subtotal row * (8 / 100) \<and>
           o_total row = o_subtotal row + o_tax row"
    and "map (\<lambda>r. (oi_product_id r, oi_quantity r, oi_unit_price r))
           (filter (\<lambda>r. oi_order_id r = oid) (t_order_items db'))
         = map (\<lambda>i. (i_product_id i, i_quantity i, i_unit_price i)) items"
proof -
  from body_success [OF ok] obtain row rows where
    b: "t_orders db' = t_orders db @ [row]" "o_id row = oid"
      "oid = next_rowid (orders_seq db) (map o_id (t_orders db))"
      "o_subtotal row = sum_list (map (\<lambda>i. of_int (i_quantity i) * i_unit_price i) items)"
      "o_tax row = o_subtotal row * (8 / 100)" "o_total row = o_subtotal row + o_tax row"
      "t_order_items db' = t_order_items db @ rows"
      "map item_key rows = map (\<lambda>i. (oid, i_product_id i, i_quantity i, i_unit_price i)) items"
    by blast
  have new: "\<forall>x\<in>set (map o_id (t_orders db)). x \<noteq> oid"
    using next_rowid_fresh [of _ "map o_id (t_orders db)" "orders_seq db"] b(3) by force
  have old_orders: "filter (\<lambda>r. o_id r = oid) (t_orders db) = []"
    using new by (auto simp: filter_empty_conv)
  have old_items: "filter (\<lambda>r. oi_order_id r = oid) (t_order_items db) = []"
  proof -
    have "oi_order_id r \<noteq> oid" if "r \<in> set (t_order_items db)" for r
      using new fk that by blast
    then show ?thesis by (simp add: filter_empty_conv)
  qed
  have fst_key: "map (fst \<circ> item_key) rows = map (\<lambda>i. oid) items"
    using arg_cong [OF b(8), of "map fst"] by (simp add: comp_def)
  have all_new: "\<forall>r\<in>set rows. oi_order_id r = oid"
  proof
    fix r assume "r \<in> set rows"
    then have "(fst \<circ> item_key) r \<in> set (map (fst \<circ> item_key) rows)" by simp
    then show "oi_order_id r = oid" unfolding fst_key by (auto simp: item_key_def)
  qed
  then have new_items: "filter (\<lambda>r. oi_order_id r = oid) rows = rows" by simp
  show "\<exists>row. filter (\<lambda>r. o_id r = oid) (t_orders db') = [row] \<and>
           o_subtotal row = sum_list (map (\<lambda>i. of_int (i_quantity i) * i_unit_price i) items) \<and>
           o_tax row = o_subtotal row * (8 / 100) \<and>
           o_total row = o_subtotal row + o_tax row"
    using b old_orders by (intro exI [of _ row]) simp
  have "map (\<lambda>r. (oi_product_id r, oi_quantity r, oi_unit_price r)) rows
      = map (snd \<circ> item_key) rows"
    by (simp add: item_key_def comp_def)
  also have "\<dots> = map snd (map item_key rows)" by simp
  also have "\<dots> = map (\<lambda>i. (i_product_id i, i_quantity i, i_unit_price i)) items"
    unfolding b(8) by (simp add: comp_def)
  finally show "map (\<lambda>r. (oi_product_id r, oi_quantity r, oi_unit_price r))
           (filter (\<lambda>r. oi_order_id r = oid) (t_order_items db'))
         = map (\<lambda>i. (i_product_id i, i_quantity i, i_unit_price i)) items"
    using b(7) old_items new_items by simp
qed

lemma second_call_same_second:
  assumes first: "create_order fails now ts db cid items pm cashier = (db1, Inr oid) \<or>
      main_create_order fails now ts db items pm cashier = (db1, Inr oid)"
  shows "create_order_body fails' now ts' db1 cid' cf' items' pm' cashier'
      = Inl (if fails' 0 then OperationalError else IntegrityError, db1)"
proof -
  from first obtain c cf where
    body: "create_order_body fails now ts db c cf items pm cashier = Inr (db1, oid)"
    unfolding create_order_def main_create_order_def transaction_Inr by blast
  from body_success [OF body] have
    "generate_order_number now \<in> set (map o_order_number (t_orders db1))" by auto
  then have "insert_order db1 cid' (generate_order_number now) a b c pm' cashier' ts'
      = Inl IntegrityError" for a b c
    by (simp add: insert_order_def)
  then show ?thesis unfolding create_order_body_def Let_def by simp
qed

lemmas run_defs = create_order_def main_create_order_def transaction_def create_order_body_def
  insert_order_def insert_order_item_def next_rowid_def py_sum_def empty_db_def no_fault_def
  Let_def

text \<open>
  Claim C1 as stated fails: with one item at 0.99 the computed and the stored tax are 0.0792,
  while \<^verbatim>\<open>round(subtotal * 0.08, 2)\<close> is 0.08.
\<close>

theorem tax_not_rounded_counterexample:
  "simple_totals odd_price_cart = (99 / 100, 99 / 1250, 2673 / 2500) \<and>
   spec_round2 (99 / 100 * (8 / 100)) = 8 / 100 \<and>
   fst (snd (simple_totals odd_price_cart))
     \<noteq> spec_round2 (fst (simple_totals odd_price_cart) * (8 / 100)) \<and>
   map (\<lambda>r. (o_subtotal r, o_tax r, o_total r))
     (t_orders (fst (create_order no_fault t0 t0 empty_db None [odd_price_item] ''cash''
        ''Jane Doe''))) = [(99 / 100, 99 / 1250, 2673 / 2500)]"
proof -
  have totals: "simple_totals odd_price_cart = (99 / 100, 99 / 1250, 2673 / 2500)"
    by (simp add: simple_totals_def odd_price_cart_def py_sum_def)
  have rounded: "spec_round2 (99 / 100 * (8 / 100)) = 8 / 100"
    by code_simp
  have stored: "map (\<lambda>r. (o_subtotal r, o_tax r, o_total r))
     (t_orders (fst (create_order no_fault t0 t0 empty_db None [odd_price_item] ''cash''
        ''Jane Doe''))) = [(99 / 100, 99 / 1250, 2673 / 2500)]"
    by (simp add: odd_price_item_def run_defs)
  show ?thesis unfolding totals using rounded stored by simp
qed

text \<open>
  Claim C1, as amended. For every cart and every list of line items, the totals the program
  computes satisfy subtotal = sum of unit price times quantity, tax = subtotal times 0.08
  and total = subtotal + tax, and so do the subtotal, tax and total that a successful
  \<^verbatim>\<open>create_order\<close> stores. The tax is the exact product: nothing rounds it to two decimals
  before it is shown or stored.
\<close>

theorem totals_unrounded:
  "(case simple_totals scart of (subtotal, tax, total') \<Rightarrow>
      subtotal = sum_list (map (\<lambda>i. s_price i * of_int (s_quantity i)) scart) \<and>
      tax = subtotal * (8 / 100) \<and> total' = subtotal + tax) \<and>
   (case update_totals cart of (subtotal, tax, total') \<Rightarrow>
      subtotal = sum_list (map (\<lambda>i. p_price (l_product i) * of_int (l_quantity i)) cart) \<and>
      tax = subtotal * (8 / 100) \<and> total' = subtotal + tax) \<and>
   (create_order fails now ts db cid items pm cashier = (db', Inr order_id) \<or>
    main_create_order fails now ts db items pm cashier = (db', Inr order_id) \<longrightarrow>
      (\<exists>row\<in>set (t_orders db'). o_id row = order_id \<and>
         o_subtotal row = sum_list (map (\<lambda>i. of_int (i_quantity i) * i_unit_price i) items) \<and>
         o_tax row = o_subtotal row * (8 / 100) \<and>
         o_total row = o_subtotal row + o_tax row))"
proof (intro conjI impI)
  show "case simple_totals scart of (subtotal, tax, total') \<Rightarrow>
      subtotal = sum_list (map (\<lambda>i. s_price i * of_int (s_quantity i)) scart) \<and>
      tax = subtotal * (8 / 100) \<and> total' = subtotal + tax"
    unfolding simple_totals_def Let_def py_sum_eq by simp
  show "case update_totals cart of (subtotal, tax, total') \<Rightarrow>
      subtotal = sum_list (map (\<lambda>i. p_price (l_product i) * of_int (l_quantity i)) cart) \<and>
      tax = subtotal * (8 / 100) \<and> total' = subtotal + tax"
    unfolding update_totals_def Let_def py_sum_eq by simp
next
  assume "create_order fails now ts db cid items pm cashier = (db', Inr order_id) \<or>
    main_create_order fails now ts db items pm cashier = (db', Inr order_id)"
  then obtain c cf where
    body: "create_order_body fails now ts db c cf items pm cashier = Inr (db', order_id)"
    unfolding create_order_def main_create_order_def transaction_Inr by blast
  from body_success [OF body] obtain row where
    "t_orders db' = t_orders db @ [row]" "o_id row = order_id"
    "o_subtotal row = sum_list (map (\<lambda>i. of_int (i_quantity i) * i_unit_price i) items)"
    "o_tax row = o_subtotal row * (8 / 100)" "o_total row = o_subtotal row + o_tax row"
    by blast
  then show "\<exists>row\<in>set (t_orders db'). o_id row = order_id \<and>
         o_subtotal row = sum_list (map (\<lambda>i. of_int (i_quantity i) * i_unit_price i) items) \<and>
         o_tax row = o_subtotal row * (8 / 100) \<and>
         o_total row = o_subtotal row + o_tax row"
    by (intro bexI [of _ row]) simp_all
qed

text \<open>The example of the spec: subtotal 9.00, tax 0.72, total 9.72.\<close>

theorem totals_unrounded_witness:
  "simple_totals example_simple_cart = (9, 18 / 25, 243 / 25) \<and>
   update_totals example_cart = (9, 18 / 25, 243 / 25) \<and>
   (\<exists>row\<in>set (t_orders db_after_first_order). o_id row = 1 \<and> o_subtotal row = 9 \<and>
      o_tax row = 18 / 25 \<and> o_total row = 243 / 25)"
proof -
  have run: "create_order no_fault t0 t0 empty_db None example_items ''cash'' ''Jane Doe''
      = (db_after_first_order, Inr 1)"
    by (simp add: db_after_first_order_def run_defs example_items_def)
  from totals_unrounded [of example_simple_cart example_cart no_fault t0 t0 empty_db None
      example_items "''cash''" "''Jane Doe''" db_after_first_order 1] run
  show ?thesis
    by (auto simp: example_simple_cart_def example_cart_def example_items_def latte_def
        split: prod.splits)
qed

text \<open>
  Claim C2. \<^verbatim>\<open>create_order\<close> is atomic. Whenever it ends in an error the stored tables are
  the ones it started from. In particular, when the order number is fresh, the insertion of
  the order goes through and the engine fails at one of the later statements (an item
  insertion, or the commit), then the body had written the order row to its working copy
  and still the call leaves the stored tables as they were: no order row and no item row
  of the attempt is kept.
\<close>

theorem finalize_atomic:
  "(snd (create_order fails now ts db cid items pm cashier) = Inl e \<longrightarrow>
      fst (create_order fails now ts db cid items pm cashier) = db) \<and>
   (snd (main_create_order fails now ts db items pm cashier) = Inl e \<longrightarrow>
      fst (main_create_order fails now ts db items pm cashier) = db) \<and>
   (\<not> fails 0 \<and> generate_order_number now \<notin> set (map o_order_number (t_orders db)) \<and>
    (\<exists>k. 1 \<le> k \<and> k \<le> Suc (length items) \<and> fails k) \<longrightarrow>
      (\<exists>work. create_order_body fails now ts db cid cf items pm cashier
                 = Inl (OperationalError, work) \<and>
              length (t_orders work) = Suc (length (t_orders db)) \<and>
              generate_order_number now \<in> set (map o_order_number (t_orders work))) \<and>
      create_order fails now ts db cid items pm cashier = (db, Inl OperationalError) \<and>
      main_create_order fails now ts db items pm cashier = (db, Inl OperationalError))"
proof (intro conjI impI)
  show "fst (create_order fails now ts db cid items pm cashier) = db"
    if "snd (create_order fails now ts db cid items pm cashier) = Inl e"
    using that unfolding create_order_def by (rule transaction_error_unchanged)
  show "fst (main_create_order fails now ts db items pm cashier) = db"
    if "snd (main_create_order fails now ts db items pm cashier) = Inl e"
    using that unfolding main_create_order_def by (rule transaction_error_unchanged)
next
  assume a: "\<not> fails 0 \<and> generate_order_number now \<notin> set (map o_order_number (t_orders db)) \<and>
    (\<exists>k. 1 \<le> k \<and> k \<le> Suc (length items) \<and> fails k)"
  then have nf: "\<not> fails 0"
    and fresh: "generate_order_number now \<notin> set (map o_order_number (t_orders db))"
    and k: "\<exists>k. 1 \<le> k \<and> k \<le> Suc (length items) \<and> fails k" by blast+
  show "\<exists>work. create_order_body fails now ts db cid cf items pm cashier
                 = Inl (OperationalError, work) \<and>
              length (t_orders work) = Suc (length (t_orders db)) \<and>
              generate_order_number now \<in> set (map o_order_number (t_orders work))"
    by (rule body_fail_after_order [OF nf fresh k])
  show "create_order fails now ts db cid items pm cashier = (db, Inl OperationalError)"
  proof -
    from body_fail_after_order [OF nf fresh k] obtain work where
      "create_order_body fails now ts db cid
         (\<lambda>item. Some (case i_customizations item of None \<Rightarrow> [] | Some c \<Rightarrow> c))
         items pm cashier = Inl (OperationalError, work)" by blast
    then show ?thesis unfolding create_order_def by (rule transaction_Inl)
  qed
  show "main_create_order fails now ts db items pm cashier = (db, Inl OperationalError)"
  proof -
    from body_fail_after_order [OF nf fresh k] obtain work where
      "create_order_body fails now ts db None (\<lambda>item. None) items pm cashier
         = Inl (OperationalError, work)" by blast
    then show ?thesis unfolding main_create_order_def by (rule transaction_Inl)
  qed
qed

text \<open>A failure right after the order row, before the first item row.\<close>

theorem finalize_atomic_witness:
  "(\<exists>work. create_order_body (\<lambda>k. k = 1) t0 t0 empty_db None (\<lambda>item. None) example_items
               ''cash'' ''Jane Doe'' = Inl (OperationalError, work) \<and>
           length (t_orders work) = 1 \<and>
           generate_order_number t0 \<in> set (map o_order_number (t_orders work))) \<and>
   create_order (\<lambda>k. k = 1) t0 t0 empty_db None example_items ''cash'' ''Jane Doe''
     = (empty_db, Inl OperationalError) \<and>
   main_create_order (\<lambda>k. k = 1) t0 t0 empty_db example_items ''cash'' ''Jane Doe''
     = (empty_db, Inl OperationalError) \<and>
   t_orders empty_db = [] \<and> t_order_items empty_db = []"
  using finalize_atomic [of "\<lambda>k. k = 1" t0 t0 empty_db None example_items "''cash''"
      "''Jane Doe''" OperationalError "\<lambda>item. None"]
  by (auto simp: empty_db_def example_items_def)

text \<open>
  Claim C3. After a successful \<^verbatim>\<open>create_order\<close>, exactly one stored order has the returned
  id; its subtotal, tax and total are the values computed from the submitted items; and the
  stored item rows of that order are, in order, the submitted items with their product id,
  quantity and unit price, so there are as many of them as items were submitted. The tables
  before the call must have no item row pointing to an order that does not exist.
\<close>

theorem finalize_stores_submitted:
  assumes "\<forall>r\<in>set (t_order_items db). oi_order_id r \<in> set (map o_id (t_orders db))"
    and "create_order fails now ts db cid items pm cashier = (db', Inr order_id) \<or>
         main_create_order fails now ts db items pm cashier = (db', Inr order_id)"
  shows "(\<exists>row. filter (\<lambda>r. o_id r = order_id) (t_orders db') = [row] \<and>
            o_subtotal row = sum_list (map (\<lambda>i. of_int (i_quantity i) * i_unit_price i) items) \<and>
            o_tax row = o_subtotal row * (8 / 100) \<and>
            o_total row = o_subtotal row + o_tax row) \<and>
         map (\<lambda>r. (oi_product_id r, oi_quantity r, oi_unit_price r))
           (filter (\<lambda>r. oi_order_id r = order_id) (t_order_items db'))
           = map (\<lambda>i. (i_product_id i, i_quantity i, i_unit_price i)) items \<and>
         length (filter (\<lambda>r. oi_order_id r = order_id) (t_order_items db')) = length items"
proof -
  from assms(2) obtain cid' cf where
    body: "create_order_body fails now ts db cid' cf items pm cashier = Inr (db', order_id)"
    unfolding create_order_def main_create_order_def transaction_Inr by blast
  note rows = stored_rows [OF assms(1) body]
  have "length (map (\<lambda>r. (oi_product_id r, oi_quantity r, oi_unit_price r))
           (filter (\<lambda>r. oi_order_id r = order_id) (t_order_items db')))
      = length (map (\<lambda>i. (i_product_id i, i_quantity i, i_unit_price i)) items)"
    by (simp only: rows(2))
  then have "length (filter (\<lambda>r. oi_order_id r = order_id) (t_order_items db')) = length items"
    by simp
  with rows show ?thesis by blast
qed

text \<open>The example cart of the spec, finalized on the empty database.\<close>

theorem finalize_stores_submitted_witness:
  "(\<exists>row. filter (\<lambda>r. o_id r = 1) (t_orders db_after_first_order) = [row] \<and>
      o_subtotal row = 9 \<and> o_tax row = 18 / 25 \<and> o_total row = 243 / 25) \<and>
   map (\<lambda>r. (oi_product_id r, oi_quantity r, oi_unit_price r))
     (filter (\<lambda>r. oi_order_id r = 1) (t_order_items db_after_first_order))
     = [(2, 2, 7 / 2), (11, 1, 2)] \<and>
   length (filter (\<lambda>r. oi_order_id r = 1) (t_order_items db_after_first_order)) = 2"
proof -
  have fk: "\<forall>r\<in>set (t_order_items empty_db). oi_order_id r \<in> set (map o_id (t_orders empty_db))"
    by (simp add: empty_db_def)
  have run: "create_order no_fault t0 t0 empty_db None example_items ''cash'' ''Jane Doe''
      = (db_after_first_order, Inr 1)"
    by (simp add: db_after_first_order_def run_defs example_items_def)
  from finalize_stores_submitted [OF fk disjI1 [OF run]]
  show ?thesis by (auto simp: example_items_def)
qed

text \<open>
  Claim C4 as stated fails: \<^verbatim>\<open>create_order\<close> itself checks nothing. On an empty list it
  stores an order row with zero totals, and an item with quantity 0 is stored as it is.
\<close>

theorem finalize_without_validation_counterexample:
  "create_order no_fault t0 t0 empty_db None [] ''cash'' ''Jane Doe''
     = (empty_db\<lparr>t_orders :=
          [\<lparr>o_id = 1, o_customer_id = None, o_order_number = generate_order_number t0,
            o_subtotal = 0, o_tax = 0, o_total = 0, o_payment_method = ''cash'',
            o_status = ''completed'', o_cashier_name = ''Jane Doe'', o_created_at = t0\<rparr>],
          orders_seq := 1\<rparr>, Inr 1) \<and>
   snd (create_order no_fault t0 t0 empty_db None [zero_quantity_item] ''cash'' ''Jane Doe'')
     = Inr 1 \<and>
   map oi_quantity (t_order_items
       (fst (create_order no_fault t0 t0 empty_db None [zero_quantity_item] ''cash''
          ''Jane Doe''))) = [0]"
  by (simp add: run_defs zero_quantity_item_def)

text \<open>
  Claim C5. Two calls of \<^verbatim>\<open>create_order\<close> within the same second build the same order
  number: the first call stores its order under it, the second one is refused by the
  \<^verbatim>\<open>UNIQUE\<close> constraint and stores nothing.
\<close>

theorem same_second_collision:
  "generate_order_number t0 = ''ORD20240115103045'' \<and>
   create_order no_fault t0 t0 empty_db None example_items ''cash'' ''Jane Doe''
     = (db_after_first_order, Inr 1) \<and>
   map o_order_number (t_orders db_after_first_order) = [''ORD20240115103045''] \<and>
   create_order no_fault t0 t0 db_after_first_order None example_items ''cash'' ''Jane Doe''
     = (db_after_first_order, Inl IntegrityError) \<and>
   main_create_order no_fault t0 t0 db_after_first_order example_items ''cash'' ''Jane Doe''
     = (db_after_first_order, Inl IntegrityError)"
proof -
  have num: "generate_order_number t0 = ''ORD20240115103045''"
    by code_simp
  have run: "create_order no_fault t0 t0 empty_db None example_items ''cash'' ''Jane Doe''
      = (db_after_first_order, Inr 1)"
    by (simp add: db_after_first_order_def run_defs example_items_def)
  have stored: "map o_order_number (t_orders db_after_first_order) = [''ORD20240115103045'']"
    unfolding num [symmetric]
    by (simp add: db_after_first_order_def run_defs example_items_def)
  have second: "create_order_body no_fault t0 t0 db_after_first_order c cf example_items ''cash''
      ''Jane Doe'' = Inl (IntegrityError, db_after_first_order)" for c cf
    using second_call_same_second [OF disjI1 [OF run], of no_fault t0 c cf example_items
        "''cash''" "''Jane Doe''"]
    by (simp add: no_fault_def)
  show ?thesis using num run stored second
    by (simp add: create_order_def main_create_order_def transaction_def)
qed


section \<open>Catalog and inventory queries: content and order\<close>

lemma length_filter_key:
  "distinct (map f xs) \<Longrightarrow>
     length (filter (\<lambda>x. k = f x \<and> P x) xs) = (if \<exists>x\<in>set xs. f x = k \<and> P x then 1 else 0)"
proof (induction xs)
  case Nil
  then show ?case by simp
next
  case (Cons a xs)
  show ?case
  proof (cases "k = f a")
    case True
    from Cons.prems have "f a \<notin> f ` set xs" by simp
    with True have "\<forall>x\<in>set xs. f x \<noteq> k" by (metis image_eqI)
    then have "filter (\<lambda>x. k = f x \<and> P x) xs = []" by (auto simp: filter_empty_conv)
    with True \<open>\<forall>x\<in>set xs. f x \<noteq> k\<close> show ?thesis by auto
  next
    case False
    with Cons show ?thesis by auto
  qed
qed

lemma length_concat_filter:
  "(\<And>p. p \<in> set ps \<Longrightarrow> length (g p) = (if Q p then 1 else 0)) \<Longrightarrow>
     length (concat (map g ps)) = length (filter Q ps)"
  by (induction ps) auto

text \<open>
  Claim C6 as stated fails for db_manager.py: asked for "All", it looks for products whose
  category is "All" and returns nothing, although three products are available.
\<close>

theorem no_sentinel_counterexample:
  "get_products_by_category example_catalog ''All'' = [] \<and>
   map p_name (filter (\<lambda>p. p_is_available p = 1) (t_products example_catalog))
     = [''Latte'', ''Espresso'', ''Earl Grey'']"
  by code_simp

text \<open>
  Claim C6, as amended. For every category value, \<^verbatim>\<open>get_products_by_category\<close> returns
  exactly the available products of that category, ordered by name. In main.py the value
  "All" is a sentinel: it returns every available product ordered by (category, name), and
  every other value is treated as in db_manager.py. In db_manager.py there is no sentinel.
\<close>

theorem list_by_category:
  "mset (get_products_by_category db category)
     = mset (filter (\<lambda>p. p_category p = category \<and> p_is_available p = 1) (t_products db)) \<and>
   sorted (map p_name (get_products_by_category db category)) \<and>
   (category \<noteq> ''All'' \<longrightarrow>
      main_get_products_by_category db category = get_products_by_category db category) \<and>
   mset (main_get_products_by_category db ''All'')
     = mset (filter (\<lambda>p. p_is_available p = 1) (t_products db)) \<and>
   sorted (map (\<lambda>p. (p_category p, p_name p)) (main_get_products_by_category db ''All''))"
  by (simp add: get_products_by_category_def main_get_products_by_category_def)

text \<open>The theorem at category "Coffee" of the example catalog.\<close>

theorem list_by_category_witness:
  "main_get_products_by_category example_catalog ''Coffee''
     = get_products_by_category example_catalog ''Coffee'' \<and>
   map p_name (get_products_by_category example_catalog ''Coffee'') = [''Espresso'', ''Latte''] \<and>
   map p_name (main_get_products_by_category example_catalog ''All'')
     = [''Espresso'', ''Latte'', ''Earl Grey'']"
proof -
  have "map p_name (get_products_by_category example_catalog ''Coffee'') = [''Espresso'', ''Latte'']"
    by code_simp
  moreover have "map p_name (main_get_products_by_category example_catalog ''All'')
     = [''Espresso'', ''Latte'', ''Earl Grey'']"
    by code_simp
  ultimately show ?thesis
    using list_by_category [of example_catalog "''Coffee''"] by simp
qed

text \<open>
  Claim C8. \<^verbatim>\<open>get_low_stock_items\<close> returns the triples (name, current_stock, min_stock) of
  exactly the products with an inventory row whose current_stock is at most min_stock,
  ordered ascending by current_stock; with one inventory row per product at most (the
  column is \<^verbatim>\<open>UNIQUE\<close>), every such product gives exactly one triple.
\<close>

theorem low_stock:
  assumes "distinct (map inv_product_id (t_inventory db))"
  shows "set (get_low_stock_items db)
       = {(p_name p, inv_current_stock i, inv_min_stock i) | p i.
            p \<in> set (t_products db) \<and> i \<in> set (t_inventory db) \<and> inv_product_id i = p_id p
            \<and> inv_current_stock i \<le> inv_min_stock i} \<and>
     sorted (map (\<lambda>row. fst (snd row)) (get_low_stock_items db)) \<and>
     length (get_low_stock_items db)
       = length (filter (\<lambda>p. \<exists>i\<in>set (t_inventory db). inv_product_id i = p_id p
                              \<and> inv_current_stock i \<le> inv_min_stock i) (t_products db))"
proof (intro conjI)
  show "set (get_low_stock_items db)
       = {(p_name p, inv_current_stock i, inv_min_stock i) | p i.
            p \<in> set (t_products db) \<and> i \<in> set (t_inventory db) \<and> inv_product_id i = p_id p
            \<and> inv_current_stock i \<le> inv_min_stock i}"
  proof (intro set_eqI iffI)
    fix row
    assume "row \<in> set (get_low_stock_items db)"
    then obtain p i where "p \<in> set (t_products db)" "i \<in> set (t_inventory db)"
      "p_id p = inv_product_id i" "inv_current_stock i \<le> inv_min_stock i"
      "row = (p_name p, inv_current_stock i, inv_min_stock i)"
      unfolding get_low_stock_items_def by auto
    then show "row \<in> {(p_name p, inv_current_stock i, inv_min_stock i) | p i.
            p \<in> set (t_products db) \<and> i \<in> set (t_inventory db) \<and> inv_product_id i = p_id p
            \<and> inv_current_stock i \<le> inv_min_stock i}"
      by (auto intro!: exI [of _ p] exI [of _ i])
  next
    fix row
    assume "row \<in> {(p_name p, inv_current_stock i, inv_min_stock i) | p i.
            p \<in> set (t_products db) \<and> i \<in> set (t_inventory db) \<and> inv_product_id i = p_id p
            \<and> inv_current_stock i \<le> inv_min_stock i}"
    then obtain p i where "p \<in> set (t_products db)" "i \<in> set (t_inventory db)"
      "inv_product_id i = p_id p" "inv_current_stock i \<le> inv_min_stock i"
      "row = (p_name p, inv_current_stock i, inv_min_stock i)"
      by auto
    then show "row \<in> set (get_low_stock_items db)"
      unfolding get_low_stock_items_def by force
  qed
  show "sorted (map (\<lambda>row. fst (snd row)) (get_low_stock_items db))"
    unfolding get_low_stock_items_def by simp
  have inner: "length (map (\<lambda>i. (p_name p, inv_current_stock i, inv_min_stock i))
          (filter (\<lambda>i. p_id p = inv_product_id i \<and> inv_current_stock i \<le> inv_min_stock i)
             (t_inventory db)))
      = (if \<exists>i\<in>set (t_inventory db). inv_product_id i = p_id p
               \<and> inv_current_stock i \<le> inv_min_stock i then 1 else 0)" for p
    unfolding length_map by (rule length_filter_key [OF assms])
  show "length (get_low_stock_items db)
       = length (filter (\<lambda>p. \<exists>i\<in>set (t_inventory db). inv_product_id i = p_id p
                              \<and> inv_current_stock i \<le> inv_min_stock i) (t_products db))"
    unfolding get_low_stock_items_def length_sort
    by (rule length_concat_filter) (rule inner)
qed

text \<open>The example catalog: Earl Grey (4 of 10) before Latte (10 of 10).\<close>

theorem low_stock_witness:
  "get_low_stock_items example_catalog = [(''Earl Grey'', 4, 10), (''Latte'', 10, 10)] \<and>
   set (get_low_stock_items example_catalog)
       = {(p_name p, inv_current_stock i, inv_min_stock i) | p i.
            p \<in> set (t_products example_catalog) \<and> i \<in> set (t_inventory example_catalog)
            \<and> inv_product_id i = p_id p \<and> inv_current_stock i \<le> inv_min_stock i} \<and>
   length (get_low_stock_items example_catalog) = 2"
proof -
  have d: "distinct (map inv_product_id (t_inventory example_catalog))"
    by (simp add: example_catalog_def empty_db_def)
  have v: "get_low_stock_items example_catalog = [(''Earl Grey'', 4, 10), (''Latte'', 10, 10)]"
    by code_simp
  from low_stock [OF d] v show ?thesis by simp
qed


section \<open>The Historical Synthesizer: dates, counts and order numbers\<close>

lemma digit_char_inj: "a < 10 \<Longrightarrow> b < 10 \<Longrightarrow> digit_char a = digit_char b \<Longrightarrow> a = b"
  unfolding digit_char_def char_of_eq_iff
  by (simp add: take_bit_nat_eq_self)

lemma digit_char_0: "digit_char 0 = CHR ''0''"
  by code_simp

lemma length_digits: "length (digits w n) = w"
  by (induction w arbitrary: n) auto

lemma digits_inj: "n < 10 ^ w \<Longrightarrow> m < 10 ^ w \<Longrightarrow> digits w n = digits w m \<Longrightarrow> n = m"
proof (induction w arbitrary: n m)
  case 0
  then show ?case by simp
next
  case (Suc w)
  from Suc.prems(3) have eq: "digits w (n div 10) = digits w (m div 10)"
      "digit_char (n mod 10) = digit_char (m mod 10)"
    by (simp_all add: length_digits)
  have "n div 10 < 10 ^ w" "m div 10 < 10 ^ w"
    using Suc.prems(1,2) by (simp_all add: less_mult_imp_div_less)
  with Suc.IH eq(1) have d: "n div 10 = m div 10" by blast
  have "n mod 10 = m mod 10"
    using eq(2) by (intro digit_char_inj) simp_all
  with d show ?case by (metis div_mult_mod_eq)
qed

lemma digits_zero: "digits w 0 = replicate w (CHR ''0'')"
  by (induction w) (simp_all add: digit_char_0 replicate_append_same)

lemma digits_small: "n < 10 \<Longrightarrow> digits (Suc w) n = replicate w (CHR ''0'') @ [digit_char n]"
  by (simp add: digits_zero)

lemma zfill_snoc: "zfill (Suc w) (s @ [c]) = zfill w s @ [c]"
  by (simp add: zfill_def)

lemma zfill_str_nat: "0 < w \<Longrightarrow> n < 10 ^ w \<Longrightarrow> zfill w (str_nat n) = digits w n"
proof (induction n arbitrary: w rule: str_nat.induct)
  case (1 n)
  from "1.prems" obtain w' where w: "w = Suc w'" by (cases w) auto
  show ?case
  proof (cases "n < 10")
    case True
    then show ?thesis
      unfolding w by (subst str_nat.simps) (simp add: digits_zero zfill_def)
  next
    case False
    have small: "n div 10 < 10 ^ w'"
      using "1.prems" unfolding w by (simp add: less_mult_imp_div_less)
    have "0 < w'"
    proof (rule ccontr)
      assume "\<not> 0 < w'"
      with "1.prems" w False show False by simp
    qed
    from "1.IH" [OF False this small] False show ?thesis
      unfolding w by (subst str_nat.simps) (simp add: zfill_snoc)
  qed
qed

lemma strftime_Ymd_digits:
  assumes "dt_year t < 10000" "dt_month t < 100" "dt_day t < 100"
  shows "strftime_Ymd t = digits 4 (dt_year t) @ digits 2 (dt_month t) @ digits 2 (dt_day t)"
  using assms by (simp add: strftime_Ymd_def zfill_str_nat)

lemma strftime_Ymd_inj:
  assumes "dt_year t < 10000" "dt_month t < 100" "dt_day t < 100"
    and "dt_year t' < 10000" "dt_month t' < 100" "dt_day t' < 100"
    and eq: "strftime_Ymd t @ a = strftime_Ymd t' @ b"
  shows "date_of t = date_of t' \<and> a = b"
proof -
  have l: "length (strftime_Ymd t) = length (strftime_Ymd t')"
    using assms(1-6) by (simp add: strftime_Ymd_digits length_digits)
  with eq have e: "strftime_Ymd t = strftime_Ymd t'" and ab: "a = b" by simp_all
  from e have "digits 4 (dt_year t) = digits 4 (dt_year t') \<and>
      digits 2 (dt_month t) = digits 2 (dt_month t') \<and> digits 2 (dt_day t) = digits 2 (dt_day t')"
    using assms(1-6) by (simp add: strftime_Ymd_digits length_digits)
  then have "dt_year t = dt_year t'" "dt_month t = dt_month t'" "dt_day t = dt_day t'"
    using assms(1-6) digits_inj [of "dt_year t" 4 "dt_year t'"]
      digits_inj [of "dt_month t" 2 "dt_month t'"] digits_inj [of "dt_day t" 2 "dt_day t'"]
    by simp_all
  with ab show ?thesis by (simp add: date_of_def)
qed

lemma seq_inj: "n < 1000 \<Longrightarrow> m < 1000 \<Longrightarrow> zfill 3 (str_nat n) = zfill 3 (str_nat m) \<Longrightarrow> n = m"
  using digits_inj [of n 3 m] by (simp add: zfill_str_nat)

lemma days_in_month_le: "days_in_month y m \<le> 31"
  by (simp add: days_in_month_def)

lemma valid_small: "valid_datetime t \<Longrightarrow> small_date t"
  using days_in_month_le [of "dt_year t" "dt_month t"]
  by (simp add: valid_datetime_def small_date_def)

lemma next_day_Some:
  assumes "next_day t = Some t'"
  shows "date_of t < date_of t'"
    and "dt_hour t' = dt_hour t \<and> dt_minute t' = dt_minute t \<and> dt_second t' = dt_second t"
    and "small_date t \<Longrightarrow> small_date t'"
proof -
  show "date_of t < date_of t'"
    using assms by (auto simp: next_day_def date_of_def split: if_splits)
  show "dt_hour t' = dt_hour t \<and> dt_minute t' = dt_minute t \<and> dt_second t' = dt_second t"
    using assms by (auto simp: next_day_def split: if_splits)
  show "small_date t'" if "small_date t"
    using assms that days_in_month_le [of "dt_year t" "dt_month t"]
    by (auto simp: next_day_def small_date_def split: if_splits)
qed

lemma plus_days_Some:
  "plus_days s n = Some t \<Longrightarrow>
     date_of s \<le> date_of t \<and> (small_date s \<longrightarrow> small_date t) \<and>
     dt_hour t = dt_hour s \<and> dt_minute t = dt_minute s \<and> dt_second t = dt_second s"
proof (induction n arbitrary: t)
  case 0
  then show ?case by simp
next
  case (Suc n)
  from Suc.prems obtain m where m: "plus_days s n = Some m" "next_day m = Some t"
    by (auto split: option.splits)
  from Suc.IH [OF m(1)] next_day_Some [OF m(2)] show ?case by auto
qed

lemma plus_days_prefix: "plus_days s n = Some t \<Longrightarrow> k \<le> n \<Longrightarrow> \<exists>t'. plus_days s k = Some t'"
proof (induction n arbitrary: t)
  case 0
  then show ?case by simp
next
  case (Suc n)
  from Suc.prems(1) obtain m where m: "plus_days s n = Some m"
    by (auto split: option.splits)
  show ?case
  proof (cases "k = Suc n")
    case True
    with Suc.prems(1) show ?thesis by blast
  next
    case False
    with Suc.prems(2) have "k \<le> n" by simp
    from Suc.IH [OF m this] show ?thesis .
  qed
qed

lemma plus_days_mono:
  "plus_days s i = Some a \<Longrightarrow> plus_days s j = Some b \<Longrightarrow> i < j \<Longrightarrow> date_of a < date_of b"
proof (induction j arbitrary: b)
  case 0
  then show ?case by simp
next
  case (Suc j)
  from Suc.prems(2) obtain m where m: "plus_days s j = Some m" "next_day m = Some b"
    by (auto split: option.splits)
  have step: "date_of m < date_of b" by (rule next_day_Some(1) [OF m(2)])
  show ?case
  proof (cases "i = j")
    case True
    with Suc.prems(1) m(1) step show ?thesis by simp
  next
    case False
    with Suc.prems(3) have "i < j" by simp
    from Suc.IH [OF Suc.prems(1) m(1) this] step show ?thesis by (rule less_trans)
  qed
qed

lemma plus_days_shift:
  "plus_days s (Suc n) = (case next_day s of None \<Rightarrow> None | Some s' \<Rightarrow> plus_days s' n)"
  by (induction n) (auto split: option.splits)

lemma days_in_month_ge: "1 \<le> days_in_month y m"
  by (simp add: days_in_month_def)

lemma prev_day_next_day:
  assumes v: "valid_datetime t" and p: "prev_day t = Some p"
  shows "valid_datetime p \<and> next_day p = Some t"
proof -
  from v have b: "1 \<le> dt_year t" "dt_year t \<le> 9999" "1 \<le> dt_month t" "dt_month t \<le> 12"
    "1 \<le> dt_day t" "dt_day t \<le> days_in_month (dt_year t) (dt_month t)"
    "dt_hour t < 24" "dt_minute t < 60" "dt_second t < 60"
    by (simp_all add: valid_datetime_def)
  consider (day) "1 < dt_day t"
    | (month) "dt_day t = 1" "1 < dt_month t"
    | (year) "dt_day t = 1" "dt_month t = 1"
    using b(3,5) by linarith
  then show ?thesis
  proof cases
    case day
    with p have pe: "p = t\<lparr>dt_day := dt_day t - 1\<rparr>" by (simp add: prev_day_def)
    have "valid_datetime p" using b day unfolding pe valid_datetime_def by simp linarith
    moreover have "dt_day t - 1 < days_in_month (dt_year t) (dt_month t)"
      using b day by linarith
    then have "next_day p = Some t" using day unfolding pe next_day_def by simp
    ultimately show ?thesis by simp
  next
    case month
    with p have pe: "p = t\<lparr>dt_month := dt_month t - 1,
        dt_day := days_in_month (dt_year t) (dt_month t - 1)\<rparr>"
      by (simp add: prev_day_def)
    have "valid_datetime p"
      using b month days_in_month_ge [of "dt_year t" "dt_month t - 1"]
      unfolding pe valid_datetime_def by (simp; linarith?)
    moreover have "next_day p = Some t" using b month unfolding pe next_day_def by (simp; linarith?)
    ultimately show ?thesis by simp
  next
    case year
    from p year have y: "1 < dt_year t"
      by (auto simp: prev_day_def split: if_splits)
    with p year have pe: "p = t\<lparr>dt_year := dt_year t - 1, dt_month := 12, dt_day := 31\<rparr>"
      by (simp add: prev_day_def)
    have "valid_datetime p"
      using b year y unfolding pe valid_datetime_def by (simp add: days_in_month_def; linarith?)
    moreover have "next_day p = Some t"
      using b year y unfolding pe next_day_def by (simp add: days_in_month_def; linarith?)
    ultimately show ?thesis by simp
  qed
qed

lemma minus_days_plus_days:
  "valid_datetime now \<Longrightarrow> minus_days now n = Some s \<Longrightarrow>
     valid_datetime s \<and> plus_days s n = Some now"
proof (induction n arbitrary: s)
  case 0
  then show ?case by simp
next
  case (Suc n)
  from Suc.prems(2) obtain m where m: "minus_days now n = Some m" "prev_day m = Some s"
    by (auto split: option.splits)
  from Suc.IH [OF Suc.prems(1) m(1)] have vm: "valid_datetime m" "plus_days m n = Some now"
    by simp_all
  from prev_day_next_day [OF vm(1) m(2)] have "valid_datetime s" "next_day s = Some m"
    by simp_all
  with vm(2) show ?case by (simp add: plus_days_shift del: plus_days.simps)
qed

lemma randint_range:
  assumes "a \<le> b" "randint a b g = (n, g')"
  shows "a \<le> n \<and> n \<le> b"
proof -
  obtain r h where d: "draw g = (r, h)" by (cases "draw g")
  with assms(2) have n: "n = a + int r mod (b - a + 1)" by (simp add: randint_def)
  have "0 \<le> int r mod (b - a + 1)"
    using assms(1) by (intro pos_mod_sign) simp
  moreover have "int r mod (b - a + 1) < b - a + 1"
    using assms(1) by (intro pos_mod_bound) simp
  ultimately have "0 \<le> int r mod (b - a + 1) \<and> int r mod (b - a + 1) < b - a + 1"
    by simp
  with n show ?thesis by linarith
qed

lemma choice_ok:
  assumes "seq \<noteq> []"
  shows "\<exists>x g'. choice seq g = Inr (x, g') \<and> x \<in> set seq"
proof -
  obtain r h where d: "draw g = (r, h)" by (cases "draw g")
  have "r mod length seq < length seq" using assms by simp
  then have "seq ! (r mod length seq) \<in> set seq" by (rule nth_mem)
  with assms d show ?thesis by (simp add: choice_def)
qed

lemma sample_from_props:
  "k \<le> length pool \<Longrightarrow> sample_from pool k g = (chosen, g') \<Longrightarrow>
     length chosen = k \<and> set chosen \<subseteq> set pool \<and>
     (distinct (map f pool) \<longrightarrow> distinct (map f chosen))"
proof (induction k arbitrary: pool g chosen g')
  case 0
  then show ?case by simp
next
  case (Suc k)
  from Suc.prems(1) have ne: "pool \<noteq> []" by auto
  obtain r h where d: "draw g = (r, h)" by (cases "draw g")
  define j where "j = r mod length pool"
  define pool' where "pool' = take j pool @ drop (Suc j) pool"
  have j: "j < length pool" using ne by (simp add: j_def)
  obtain rest h' where rec: "sample_from pool' k h = (rest, h')"
    by (cases "sample_from pool' k h")
  from Suc.prems(2) ne d rec have chosen: "chosen = pool ! j # rest"
    by (simp add: j_def pool'_def Let_def)
  have len: "k \<le> length pool'" using Suc.prems(1) j by (simp add: pool'_def)
  from Suc.IH [OF len rec] have ih: "length rest = k" "set rest \<subseteq> set pool'"
    "distinct (map f pool') \<longrightarrow> distinct (map f rest)" by simp_all
  have split: "pool = take j pool @ pool ! j # drop (Suc j) pool"
    using j by (rule id_take_nth_drop)
  have sub: "set pool' \<subseteq> set pool"
    unfolding pool'_def using set_take_subset [of j pool] set_drop_subset [of "Suc j" pool]
    by auto
  have dist: "distinct (map f (pool ! j # rest))" if dp: "distinct (map f pool)"
  proof -
    from dp have "distinct (map f (take j pool @ pool ! j # drop (Suc j) pool))"
      using split by simp
    then have d': "distinct (map f pool')" and nin: "f (pool ! j) \<notin> f ` set pool'"
      by (auto simp: pool'_def)
    from nin ih(2) have "f (pool ! j) \<notin> f ` set rest" by blast
    with ih(3) d' show ?thesis by simp
  qed
  have "pool ! j \<in> set pool" using j by (rule nth_mem)
  with ih sub dist show ?case unfolding chosen by auto
qed

lemma order_items_loop_props:
  "order_items_loop selected subtotal acc g = (subtotal', items, g') \<Longrightarrow>
     map fst items = map fst acc @ map fst selected"
proof (induction selected arbitrary: subtotal acc g)
  case Nil
  then show ?case by simp
next
  case (Cons p rest)
  obtain product_id price where p: "p = (product_id, price)" by (cases p)
  obtain q h where r: "randint 1 3 g = (q, h)" by (cases "randint 1 3 g")
  from Cons.prems p r have
    "order_items_loop rest (subtotal + price * of_int q) (acc @ [(product_id, q, price)]) h
       = (subtotal', items, g')"
    by (simp add: Let_def)
  from Cons.IH [OF this] show ?case by (simp add: p)
qed

lemma insert_generated_items_props:
  "\<exists>rows. t_order_items (insert_generated_items order_id items db) = t_order_items db @ rows \<and>
      map oi_order_id rows = map (\<lambda>i. order_id) items \<and>
      map oi_product_id rows = map fst items \<and>
      t_orders (insert_generated_items order_id items db) = t_orders db"
proof (induction items arbitrary: db)
  case Nil
  then show ?case by simp
next
  case (Cons item rest)
  obtain product_id quantity unit_price where i: "item = (product_id, quantity, unit_price)"
    by (cases item)
  define db1 where "db1 = insert_order_item db order_id product_id quantity unit_price None"
  obtain r where db1: "t_order_items db1 = t_order_items db @ [r]" "oi_order_id r = order_id"
      "oi_product_id r = product_id" "t_orders db1 = t_orders db"
    by (simp add: db1_def insert_order_item_def Let_def)
  from Cons.IH [of db1] obtain rows where
    rows: "t_order_items (insert_generated_items order_id rest db1) = t_order_items db1 @ rows"
      "map oi_order_id rows = map (\<lambda>i. order_id) rest"
      "map oi_product_id rows = map fst rest"
      "t_orders (insert_generated_items order_id rest db1) = t_orders db1"
    by blast
  have "t_order_items (insert_generated_items order_id (item # rest) db)
      = t_order_items db @ (r # rows)"
    using rows(1) db1(1) by (simp add: i db1_def)
  moreover have "map oi_order_id (r # rows) = map (\<lambda>i. order_id) (item # rest)"
    using rows(2) db1(2) by simp
  moreover have "map oi_product_id (r # rows) = map fst (item # rest)"
    using rows(3) db1(3) by (simp add: i)
  moreover have "t_orders (insert_generated_items order_id (item # rest) db) = t_orders db"
    using rows(4) db1(4) by (simp add: i db1_def)
  ultimately show ?case by blast
qed

lemma customer_draw:
  assumes "customers \<noteq> []"
  shows "\<exists>cid g2. (if u < 7 / 10
            then (case choice customers g1 of
                    Inl e \<Rightarrow> Inl e
                  | Inr (c, g') \<Rightarrow> Inr (Some c, g'))
            else Inr (None, g1)) = (Inr (cid, g2) :: error + (int option \<times> rng))"
proof (cases "u < 7 / 10")
  case True
  from choice_ok [OF assms, of g1] obtain c g' where "choice customers g1 = Inr (c, g')"
    by blast
  with True show ?thesis by simp
next
  case False
  then show ?thesis by simp
qed

lemma filter_all_eq: "\<forall>x\<in>set xs. f x = k \<Longrightarrow> filter (\<lambda>x. f x = k) xs = xs"
  by (induction xs) auto

lemma filter_none_eq: "\<forall>x\<in>set xs. f x \<noteq> k \<Longrightarrow> filter (\<lambda>x. f x = k) xs = []"
  by (induction xs) auto

lemma orders_ok_extend:
  assumes ok: "orders_ok pids db"
    and o: "t_orders db' = t_orders db @ [row]"
    and oid: "o_id row = next_rowid (orders_seq db) (map o_id (t_orders db))"
    and i: "t_order_items db' = t_order_items db @ rows"
    and rows: "\<forall>r\<in>set rows. oi_order_id r = o_id row"
    and len: "1 \<le> length rows" "length rows \<le> 4"
    and dist: "distinct (map oi_product_id rows)"
    and sub: "set (map oi_product_id rows) \<subseteq> set pids"
  shows "orders_ok pids db'"
proof -
  from ok have fk: "\<forall>r\<in>set (t_order_items db). oi_order_id r \<in> set (map o_id (t_orders db))"
    and old: "\<forall>x\<in>set (t_orders db).
        1 \<le> length (items_of db (o_id x)) \<and> length (items_of db (o_id x)) \<le> 4 \<and>
        distinct (map oi_product_id (items_of db (o_id x))) \<and>
        set (map oi_product_id (items_of db (o_id x))) \<subseteq> set pids"
    by (simp_all add: orders_ok_def)
  have fresh: "x \<noteq> o_id row" if "x \<in> set (map o_id (t_orders db))" for x
    using next_rowid_fresh [OF that, of "orders_seq db"] oid by simp
  have new_items: "items_of db' (o_id row) = rows"
  proof -
    have "\<forall>r\<in>set (t_order_items db). oi_order_id r \<noteq> o_id row"
      using fk fresh by blast
    then have "filter (\<lambda>r. oi_order_id r = o_id row) (t_order_items db) = []"
      by (rule filter_none_eq)
    moreover have "filter (\<lambda>r. oi_order_id r = o_id row) rows = rows"
      using rows by (rule filter_all_eq)
    ultimately show ?thesis by (simp add: items_of_def i)
  qed
  have old_items: "items_of db' (o_id x) = items_of db (o_id x)" if "x \<in> set (t_orders db)" for x
  proof -
    from that have "o_id x \<in> set (map o_id (t_orders db))" by simp
    from fresh [OF this] have "\<forall>r\<in>set rows. oi_order_id r \<noteq> o_id x"
      using rows by simp
    then have "filter (\<lambda>r. oi_order_id r = o_id x) rows = []"
      by (rule filter_none_eq)
    then show ?thesis by (simp add: items_of_def i)
  qed
  have a: "\<forall>r\<in>set (t_order_items db'). oi_order_id r \<in> set (map o_id (t_orders db'))"
    using fk rows by (auto simp: i o)
  have b: "1 \<le> length (items_of db' (o_id x)) \<and> length (items_of db' (o_id x)) \<le> 4 \<and>
        distinct (map oi_product_id (items_of db' (o_id x))) \<and>
        set (map oi_product_id (items_of db' (o_id x))) \<subseteq> set pids"
    if "x \<in> set (t_orders db')" for x
  proof (cases "x \<in> set (t_orders db)")
    case True
    with old old_items [OF True] show ?thesis by simp
  next
    case False
    with that o have "x = row" by simp
    with new_items len dist sub show ?thesis by simp
  qed
  from a b show ?thesis unfolding orders_ok_def by blast
qed

lemma generate_order_step:
  assumes ok: "orders_ok (map fst products) db"
    and prods: "products \<noteq> []" "distinct (map fst products)"
    and cust: "customers \<noteq> []"
    and fresh: "order_number_of d n \<notin> set (map o_order_number (t_orders db))"
  shows "\<exists>db' g' row. generate_order products customers d n (db, g) = Inr (db', g') \<and>
     t_orders db' = t_orders db @ [row] \<and> o_order_number row = order_number_of d n \<and>
     o_created_at row = d \<and> orders_ok (map fst products) db'"
proof -
  obtain u g1 where s1: "random_unit g = (u, g1)" by (cases "random_unit g")
  from customer_draw [OF cust, of u g1] obtain cid g2 where
    s2: "(if u < 7 / 10
            then (case choice customers g1 of
                    Inl e \<Rightarrow> Inl e
                  | Inr (c, g') \<Rightarrow> Inr (Some c, g'))
            else Inr (None, g1)) = (Inr (cid, g2) :: error + (int option \<times> rng))"
    by blast
  obtain num_items g3 where s3: "randint 1 4 g2 = (num_items, g3)" by (cases "randint 1 4 g2")
  from randint_range [OF _ s3] have num: "1 \<le> num_items" "num_items \<le> 4" by simp_all
  define k where "k = min (nat num_items) (length products)"
  have k: "1 \<le> k" "k \<le> 4" "k \<le> length products"
    using num prods(1) by (auto simp: k_def Suc_le_eq)
  obtain selected g4 where sf: "sample_from products k g3 = (selected, g4)"
    by (cases "sample_from products k g3")
  have s4: "random_sample products k g3 = Inr (selected, g4)"
    using k(3) sf by (simp add: random_sample_def)
  from sample_from_props [OF k(3) sf, of fst] prods(2) have sel: "length selected = k"
    "set selected \<subseteq> set products" "distinct (map fst selected)" by simp_all
  obtain subtotal items g5 where s5: "order_items_loop selected 0 [] g4 = (subtotal, items, g5)"
    by (cases "order_items_loop selected 0 [] g4") auto
  from order_items_loop_props [OF s5] have items: "map fst items = map fst selected" by simp
  from choice_ok [of "[''cash'', ''card'', ''mobile'']" g5] obtain pm g6 where
    s6: "choice [''cash'', ''card'', ''mobile''] g5 = Inr (pm, g6)" by auto
  from choice_ok [of "[''Jane Doe'', ''John Cashier'', ''Alice Brown'']" g6] obtain cashier g7
    where s7: "choice [''Jane Doe'', ''John Cashier'', ''Alice Brown''] g6 = Inr (cashier, g7)"
    by auto
  define T where "T = subtotal * (8 / 100)"
  define U where "U = subtotal + T"
  define row where "row = \<lparr>o_id = next_rowid (orders_seq db) (map o_id (t_orders db)),
      o_customer_id = cid, o_order_number = order_number_of d n, o_subtotal = subtotal,
      o_tax = T, o_total = U, o_payment_method = pm, o_status = ''completed'',
      o_cashier_name = cashier, o_created_at = d\<rparr>"
  define db1 where "db1 = db\<lparr>t_orders := t_orders db @ [row], orders_seq := o_id row\<rparr>"
  have s8: "insert_order db cid (order_number_of d n) subtotal T U pm cashier d
      = Inr (db1, o_id row)"
    using fresh unfolding insert_order_def Let_def row_def db1_def by simp
  define db' where "db' = insert_generated_items (o_id row) items db1"
  have run: "generate_order products customers d n (db, g) = Inr (db', g7)"
    unfolding generate_order_def Let_def prod.case s1 s2 sum.case s3
      k_def [symmetric] s4 s5 s6 s7 T_def [symmetric] U_def [symmetric] s8 db'_def
    by (rule refl)
  from insert_generated_items_props [of "o_id row" items db1] obtain rows where
    rows: "t_order_items db' = t_order_items db1 @ rows"
      "map oi_order_id rows = map (\<lambda>i. o_id row) items"
      "map oi_product_id rows = map fst items"
      "t_orders db' = t_orders db1"
    unfolding db'_def by blast
  have o: "t_orders db' = t_orders db @ [row]" using rows(4) by (simp add: db1_def)
  have i: "t_order_items db' = t_order_items db @ rows" using rows(1) by (simp add: db1_def)
  have oid: "o_id row = next_rowid (orders_seq db) (map o_id (t_orders db))"
    by (simp add: row_def)
  have all: "\<forall>r\<in>set rows. oi_order_id r = o_id row"
  proof
    fix r assume "r \<in> set rows"
    then have "oi_order_id r \<in> set (map oi_order_id rows)" by simp
    then show "oi_order_id r = o_id row" unfolding rows(2) by auto
  qed
  have lr: "length rows = k"
    using arg_cong [OF rows(3), of length] arg_cong [OF items, of length] sel(1) by simp
  have pids: "map oi_product_id rows = map fst selected" using rows(3) items by simp
  have sub: "set (map oi_product_id rows) \<subseteq> set (map fst products)"
    unfolding pids using sel(2) by auto
  have "orders_ok (map fst products) db'"
    using ok o oid i all _ _ _ sub
  proof (rule orders_ok_extend)
    show "1 \<le> length rows" "length rows \<le> 4" using lr k by simp_all
    show "distinct (map oi_product_id rows)" unfolding pids by (rule sel(3))
  qed
  moreover have "o_order_number row = order_number_of d n" "o_created_at row = d"
    by (simp_all add: row_def)
  ultimately show ?thesis using run o by blast
qed

lemma orders_loop_ok:
  assumes prods: "products \<noteq> []" "distinct (map fst products)" and cust: "customers \<noteq> []"
  shows "orders_ok (map fst products) db \<Longrightarrow> distinct (map (order_number_of d) ns) \<Longrightarrow>
     \<forall>n\<in>set ns. order_number_of d n \<notin> set (map o_order_number (t_orders db)) \<Longrightarrow>
     \<exists>db' g'. orders_loop products customers d ns (db, g) = Inr (db', g') \<and>
       map order_key (t_orders db')
         = map order_key (t_orders db) @ map (\<lambda>n. (d, order_number_of d n)) ns \<and>
       orders_ok (map fst products) db'"
proof (induction ns arbitrary: db g)
  case Nil
  then show ?case by simp
next
  case (Cons n ns)
  from Cons.prems(3) have fresh: "order_number_of d n \<notin> set (map o_order_number (t_orders db))"
    by simp
  from generate_order_step [OF Cons.prems(1) prods cust fresh, of g] obtain db1 g1 row where
    step: "generate_order products customers d n (db, g) = Inr (db1, g1)"
      "t_orders db1 = t_orders db @ [row]" "o_order_number row = order_number_of d n"
      "o_created_at row = d" "orders_ok (map fst products) db1"
    by blast
  have d': "distinct (map (order_number_of d) ns)" using Cons.prems(2) by simp
  have fresh': "\<forall>m\<in>set ns. order_number_of d m \<notin> set (map o_order_number (t_orders db1))"
  proof
    fix m assume m: "m \<in> set ns"
    from Cons.prems(2) have "order_number_of d n \<notin> order_number_of d ` set ns" by simp
    with m have "order_number_of d m \<noteq> order_number_of d n" by (metis imageI)
    moreover from Cons.prems(3) m
    have "order_number_of d m \<notin> set (map o_order_number (t_orders db))" by simp
    ultimately show "order_number_of d m \<notin> set (map o_order_number (t_orders db1))"
      using step(2,3) by simp
  qed
  from Cons.IH [OF step(5) d' fresh', of g1] obtain db' g' where
    rest: "orders_loop products customers d ns (db1, g1) = Inr (db', g')"
      "map order_key (t_orders db')
         = map order_key (t_orders db1) @ map (\<lambda>n. (d, order_number_of d n)) ns"
      "orders_ok (map fst products) db'"
    by blast
  have "orders_loop products customers d (n # ns) (db, g) = Inr (db', g')"
    using step(1) rest(1) by simp
  moreover have "map order_key (t_orders db')
      = map order_key (t_orders db) @ map (\<lambda>n. (d, order_number_of d n)) (n # ns)"
    using rest(2) step(2,3,4) by (simp add: order_key_def)
  ultimately show ?case using rest(3) by blast
qed

lemma day_keys_Cons:
  "day_keys date c (day # ds)
     = map (\<lambda>n. (date day, order_number_of (date day) n)) [0..<c day] @ day_keys date c ds"
  by (simp add: day_keys_def)

lemma day_keys_cong:
  "\<forall>day\<in>set ds. c day = c' day \<Longrightarrow> day_keys date c ds = day_keys date c' ds"
  by (induction ds) (simp_all add: day_keys_def)

lemma days_loop_ok:
  assumes prods: "products \<noteq> []" "distinct (map fst products)" and cust: "customers \<noteq> []"
    and inj: "\<And>day day' n n'. day < N \<Longrightarrow> day' < N \<Longrightarrow> n < 1000 \<Longrightarrow> n' < 1000 \<Longrightarrow>
        order_number_of (date day) n = order_number_of (date day') n' \<Longrightarrow> day = day' \<and> n = n'"
  shows "orders_ok (map fst products) db \<Longrightarrow> distinct ds \<Longrightarrow> \<forall>day\<in>set ds. day < N \<Longrightarrow>
     \<forall>day\<in>set ds. plus_days s day = Some (date day) \<Longrightarrow>
     \<forall>day\<in>set ds. \<forall>n<1000.
        order_number_of (date day) n \<notin> set (map o_order_number (t_orders db)) \<Longrightarrow>
     \<exists>db' g' c. days_loop products customers s ds (db, g) = Inr (db', g') \<and>
       (\<forall>day. 5 \<le> c day \<and> c day \<le> 15) \<and>
       map order_key (t_orders db') = map order_key (t_orders db) @ day_keys date c ds \<and>
       orders_ok (map fst products) db'"
proof (induction ds arbitrary: db g)
  case Nil
  from Nil.prems(1) show ?case
    by (auto simp: day_keys_def intro!: exI [of _ "\<lambda>day. 5"])
next
  case (Cons day ds)
  from Cons.prems(4) have date: "plus_days s day = Some (date day)" by simp
  from Cons.prems(3) have dN: "day < N" and dsN: "\<forall>day\<in>set ds. day < N" by simp_all
  obtain daily g1 where r: "randint 5 15 g = (daily, g1)" by (cases "randint 5 15 g")
  from randint_range [OF _ r] have daily: "5 \<le> daily" "daily \<le> 15" by simp_all
  define c0 where "c0 = nat daily"
  have c0: "5 \<le> c0" "c0 \<le> 15" using daily by (simp_all add: c0_def)
  have dist: "distinct (map (order_number_of (date day)) [0..<c0])"
  proof -
    have "inj_on (order_number_of (date day)) (set [0..<c0])"
    proof (rule inj_onI)
      fix x y assume "x \<in> set [0..<c0]" "y \<in> set [0..<c0]"
        "order_number_of (date day) x = order_number_of (date day) y"
      with c0 dN inj [of day day x y] show "x = y" by simp
    qed
    then show ?thesis by (simp add: distinct_map)
  qed
  have fresh: "\<forall>n\<in>set [0..<c0].
      order_number_of (date day) n \<notin> set (map o_order_number (t_orders db))"
    using Cons.prems(5) c0 by simp
  from orders_loop_ok [OF prods cust Cons.prems(1) dist fresh, of g1] obtain db1 g2 where
    inner: "orders_loop products customers (date day) [0..<c0] (db, g1) = Inr (db1, g2)"
      "map order_key (t_orders db1) = map order_key (t_orders db)
         @ map (\<lambda>n. (date day, order_number_of (date day) n)) [0..<c0]"
      "orders_ok (map fst products) db1"
    by blast
  have nums: "map o_order_number (t_orders db1) = map o_order_number (t_orders db)
         @ map (order_number_of (date day)) [0..<c0]"
    using arg_cong [OF inner(2), of "map snd"] by (simp add: order_key_def comp_def)
  have notin: "day \<notin> set ds" and dds: "distinct ds" using Cons.prems(2) by simp_all
  have dates': "\<forall>day\<in>set ds. plus_days s day = Some (date day)" using Cons.prems(4) by simp
  have fresh': "\<forall>day'\<in>set ds. \<forall>n<1000.
      order_number_of (date day') n \<notin> set (map o_order_number (t_orders db1))"
  proof (intro ballI allI impI)
    fix day' n assume d': "day' \<in> set ds" and n: "n < (1000::nat)"
    have old: "order_number_of (date day') n \<notin> set (map o_order_number (t_orders db))"
      using Cons.prems(5) d' n by simp
    have new: "order_number_of (date day') n \<notin> set (map (order_number_of (date day)) [0..<c0])"
    proof
      assume "order_number_of (date day') n \<in> set (map (order_number_of (date day)) [0..<c0])"
      then obtain m where "m < c0" "order_number_of (date day') n = order_number_of (date day) m"
        by auto
      with inj [of day' day n m] n c0 dN dsN d' have "day' = day" by simp
      with d' notin show False by simp
    qed
    from old new show "order_number_of (date day') n \<notin> set (map o_order_number (t_orders db1))"
      unfolding nums by simp
  qed
  from Cons.IH [OF inner(3) dds dsN dates' fresh', of g2] obtain db' g' c where
    rest: "days_loop products customers s ds (db1, g2) = Inr (db', g')"
      "\<forall>day. 5 \<le> c day \<and> c day \<le> 15"
      "map order_key (t_orders db') = map order_key (t_orders db1) @ day_keys date c ds"
      "orders_ok (map fst products) db'"
    by blast
  define c' where "c' = c(day := c0)"
  have run: "days_loop products customers s (day # ds) (db, g) = Inr (db', g')"
    using date r inner(1) rest(1) by (simp add: c0_def)
  have bounds: "\<forall>day. 5 \<le> c' day \<and> c' day \<le> 15"
    using rest(2) c0 by (simp add: c'_def)
  have "day_keys date c' ds = day_keys date c ds"
    by (rule day_keys_cong) (use notin in \<open>auto simp: c'_def\<close>)
  then have keys: "map order_key (t_orders db')
      = map order_key (t_orders db) @ day_keys date c' (day # ds)"
    using rest(3) inner(2) by (simp add: day_keys_Cons c'_def)
  from run bounds keys rest(4) show ?case by blast
qed

lemma day_keys_dates:
  "\<forall>day\<in>set ds. 0 < c day \<Longrightarrow> set (map fst (day_keys date c ds)) = date ` set ds"
proof (induction ds)
  case Nil
  then show ?case by (simp add: day_keys_def)
next
  case (Cons day ds)
  from Cons.prems have "[0..<c day] \<noteq> []" by simp
  then have "set (map (\<lambda>n. date day) [0..<c day]) = {date day}"
    by (cases "[0..<c day]") auto
  with Cons show ?case by (simp add: day_keys_Cons comp_def)
qed

lemma day_keys_count:
  assumes inj: "inj_on (\<lambda>day. date_of (date day)) (insert j (set ds))" and d: "distinct ds"
  shows "length (filter (\<lambda>k. date_of (fst k) = date_of (date j)) (day_keys date c ds))
     = (if j \<in> set ds then c j else 0)"
  using assms
proof (induction ds)
  case Nil
  then show ?case by (simp add: day_keys_def)
next
  case (Cons day ds)
  have inj': "inj_on (\<lambda>day. date_of (date day)) (insert j (set ds))"
    using Cons.prems(1) by (rule inj_on_subset) auto
  from Cons.prems(2) have d': "distinct ds" and notin: "day \<notin> set ds" by simp_all
  note ih = Cons.IH [OF inj' d']
  have eq: "date_of (date day) = date_of (date j) \<longleftrightarrow> day = j"
    using Cons.prems(1) by (auto simp: inj_on_def)
  show ?case
  proof (cases "day = j")
    case True
    with notin ih show ?thesis by (simp add: day_keys_Cons comp_def)
  next
    case False
    with eq ih show ?thesis by (simp add: day_keys_Cons comp_def)
  qed
qed

lemma day_keys_numbers:
  "k \<in> set (day_keys date c ds) \<Longrightarrow>
     \<exists>day\<in>set ds. \<exists>n<c day. k = (date day, order_number_of (date day) n)"
  unfolding day_keys_def by fastforce

lemma day_keys_distinct:
  assumes inj: "\<And>day day' n n'. day < N \<Longrightarrow> day' < N \<Longrightarrow> n < 1000 \<Longrightarrow> n' < 1000 \<Longrightarrow>
        order_number_of (date day) n = order_number_of (date day') n' \<Longrightarrow> day = day' \<and> n = n'"
    and c: "\<forall>day. c day \<le> 15"
  shows "distinct ds \<Longrightarrow> \<forall>day\<in>set ds. day < N \<Longrightarrow> distinct (map snd (day_keys date c ds))"
proof (induction ds)
  case Nil
  then show ?case by (simp add: day_keys_def)
next
  case (Cons day ds)
  from Cons.prems have dN: "day < N" and dsN: "\<forall>day\<in>set ds. day < N"
    and notin: "day \<notin> set ds" and dds: "distinct ds" by simp_all
  have cd: "c day \<le> 15" using c by simp
  have head: "distinct (map (order_number_of (date day)) [0..<c day])"
  proof -
    have "inj_on (order_number_of (date day)) (set [0..<c day])"
    proof (rule inj_onI)
      fix x y assume "x \<in> set [0..<c day]" "y \<in> set [0..<c day]"
        "order_number_of (date day) x = order_number_of (date day) y"
      with cd dN inj [of day day x y] show "x = y" by simp
    qed
    then show ?thesis by (simp add: distinct_map)
  qed
  have disj: "set (map (order_number_of (date day)) [0..<c day])
      \<inter> set (map snd (day_keys date c ds)) = {}"
  proof (rule ccontr)
    assume "set (map (order_number_of (date day)) [0..<c day])
      \<inter> set (map snd (day_keys date c ds)) \<noteq> {}"
    then obtain x where x1: "x \<in> set (map (order_number_of (date day)) [0..<c day])"
      and x2: "x \<in> set (map snd (day_keys date c ds))" by blast
    from x1 obtain n where n: "n < c day" "x = order_number_of (date day) n" by auto
    from x2 obtain k where k: "k \<in> set (day_keys date c ds)" "x = snd k" by auto
    from day_keys_numbers [OF k(1)] obtain day' n' where
      d': "day' \<in> set ds" "n' < c day'" "k = (date day', order_number_of (date day') n')"
      by blast
    have "c day' \<le> 15" using c by simp
    with inj [of day day' n n'] n k(2) d' cd dN dsN have "day = day'" by simp
    with d'(1) notin show False by simp
  qed
  from head disj Cons.IH [OF dds dsN] show ?case
    by (simp add: day_keys_Cons comp_def)
qed

lemma order_number_of_inj:
  assumes "small_date t" "small_date t'" "n < 1000" "n' < 1000"
    and "order_number_of t n = order_number_of t' n'"
  shows "date_of t = date_of t' \<and> n = n'"
proof -
  from assms(5) have "strftime_Ymd t @ zfill 3 (str_nat n) = strftime_Ymd t' @ zfill 3 (str_nat n')"
    by (simp add: order_number_of_def)
  with strftime_Ymd_inj [of t t' "zfill 3 (str_nat n)" "zfill 3 (str_nat n')"] assms(1,2)
  have "date_of t = date_of t'" "zfill 3 (str_nat n) = zfill 3 (str_nat n')"
    by (simp_all add: small_date_def)
  with seq_inj [OF assms(3,4)] show ?thesis by simp
qed

text \<open>
  Claim C9. On tables without orders, with a non-empty catalog of distinct product ids and at
  least one customer, and a clock whose date 30 days back exists, a run of
  \<^verbatim>\<open>_generate_dummy_orders\<close> ends without an exception, whatever the random draws. Its orders
  lie on exactly 30 distinct calendar dates; each of these dates has between 5 and 15 orders;
  each order has between 1 and 4 item rows, on distinct products; the order numbers are
  pairwise distinct, each one being "ORD", the date of the order as eight digits and a
  sequence number of the day below 15, zero-padded to three digits.
\<close>

theorem synthesizer_history:
  assumes v: "valid_datetime now" and start: "minus_days now 30 = Some start"
    and empty: "t_orders db = []" "t_order_items db = []"
    and prods: "t_products db \<noteq> []" "distinct (map p_id (t_products db))"
    and cust: "t_customers db \<noteq> []"
  shows "\<exists>db' g'. generate_dummy_orders now db g = Inr (db', g') \<and>
     card (set (map (\<lambda>r. date_of (o_created_at r)) (t_orders db'))) = 30 \<and>
     (\<forall>dd\<in>set (map (\<lambda>r. date_of (o_created_at r)) (t_orders db')).
        5 \<le> length (filter (\<lambda>r. date_of (o_created_at r) = dd) (t_orders db')) \<and>
        length (filter (\<lambda>r. date_of (o_created_at r) = dd) (t_orders db')) \<le> 15) \<and>
     (\<forall>row\<in>set (t_orders db').
        1 \<le> length (items_of db' (o_id row)) \<and> length (items_of db' (o_id row)) \<le> 4 \<and>
        distinct (map oi_product_id (items_of db' (o_id row)))) \<and>
     distinct (map o_order_number (t_orders db')) \<and>
     (\<forall>row\<in>set (t_orders db').
        \<exists>n<15. o_order_number row = order_number_of (o_created_at row) n)"
proof -
  define products where "products = map (\<lambda>p. (p_id p, p_price p)) (t_products db)"
  define customers where "customers = map c_id (t_customers db)"
  have pids: "map fst products = map p_id (t_products db)"
    by (simp add: products_def comp_def)
  have p1: "products \<noteq> []" using prods(1) by (simp add: products_def)
  have p2: "distinct (map fst products)" unfolding pids by (rule prods(2))
  have c1: "customers \<noteq> []" using cust by (simp add: customers_def)
  have ok: "orders_ok (map fst products) db"
    using empty by (simp add: orders_ok_def)
  from minus_days_plus_days [OF v start]
  have vs: "valid_datetime start" and fwd: "plus_days start 30 = Some now" by simp_all
  define date where "date day = the (plus_days start day)" for day
  have dates: "plus_days start day = Some (date day)" if "day \<le> 30" for day
    using plus_days_prefix [OF fwd that] by (auto simp: date_def)
  have small: "small_date (date day)" if "day \<le> 30" for day
    using plus_days_Some [OF dates [OF that]] valid_small [OF vs] by simp
  have date_inj: "day = day'"
    if "day < 30" "day' < 30" "date_of (date day) = date_of (date day')" for day day'
  proof (rule ccontr)
    assume "day \<noteq> day'"
    then consider "day < day'" | "day' < day" by linarith
    then show False
    proof cases
      case 1
      from plus_days_mono [OF dates dates 1] that show False by simp
    next
      case 2
      from plus_days_mono [OF dates dates 2] that show False by simp
    qed
  qed
  have inj: "day = day' \<and> n = n'"
    if "day < 30" "day' < 30" "n < 1000" "n' < 1000"
      "order_number_of (date day) n = order_number_of (date day') n'" for day day' n n'
  proof -
    from that(1,2) have "small_date (date day)" "small_date (date day')"
      by (simp_all add: small)
    from order_number_of_inj [OF this that(3,4,5)] date_inj [OF that(1,2)]
    show ?thesis by simp
  qed
  have d30: "distinct [0..<30::nat]" by simp
  have in30: "\<forall>day\<in>set [0..<30::nat]. day < 30" by simp
  have dates30: "\<forall>day\<in>set [0..<30]. plus_days start day = Some (date day)"
    using dates by simp
  have fresh: "\<forall>day\<in>set [0..<30::nat]. \<forall>n<1000.
      order_number_of (date day) n \<notin> set (map o_order_number (t_orders db))"
    using empty(1) by simp
  from days_loop_ok [of products customers 30 date db "[0..<30]" start g,
      OF p1 p2 c1 inj ok d30 in30 dates30 fresh]
  obtain db' g' c where
    loop: "days_loop products customers start [0..<30] (db, g) = Inr (db', g')"
    and c: "\<forall>day. 5 \<le> c day \<and> c day \<le> 15"
    and keys: "map order_key (t_orders db') = map order_key (t_orders db) @ day_keys date c [0..<30]"
    and ok': "orders_ok (map fst products) db'"
    by blast
  define K where "K = day_keys date c [0..<30]"
  have keys': "map order_key (t_orders db') = K" using keys empty(1) by (simp add: K_def)
  have created: "map o_created_at (t_orders db') = map fst K"
    using arg_cong [OF keys', of "map fst"] by (simp add: order_key_def comp_def)
  have numbers: "map o_order_number (t_orders db') = map snd K"
    using arg_cong [OF keys', of "map snd"] by (simp add: order_key_def comp_def)
  have run: "generate_dummy_orders now db g = Inr (db', g')"
    unfolding generate_dummy_orders_def Let_def start option.case
      products_def [symmetric] customers_def [symmetric]
    by (rule loop)
  have cpos: "\<forall>day\<in>set [0..<30]. 0 < c day"
  proof
    fix day :: nat
    from c have "5 \<le> c day" by simp
    then show "0 < c day" by simp
  qed
  have dset: "set (map (\<lambda>r. date_of (o_created_at r)) (t_orders db'))
      = (\<lambda>day. date_of (date day)) ` {0..<30}"
  proof -
    have "map (\<lambda>r. date_of (o_created_at r)) (t_orders db')
        = map date_of (map o_created_at (t_orders db'))" by simp
    then have "set (map (\<lambda>r. date_of (o_created_at r)) (t_orders db'))
        = date_of ` set (map fst K)" unfolding created by (simp add: image_image)
    also have "\<dots> = date_of ` date ` set [0..<30]"
      unfolding K_def day_keys_dates [OF cpos] ..
    finally show ?thesis by (simp add: image_image)
  qed
  have inj_on30: "inj_on (\<lambda>day. date_of (date day)) {0..<30}"
    by (rule inj_onI) (use date_inj in simp)
  have one: "card (set (map (\<lambda>r. date_of (o_created_at r)) (t_orders db'))) = 30"
    unfolding dset using card_image [OF inj_on30] by simp
  have count: "length (filter (\<lambda>r. date_of (o_created_at r) = date_of (date j)) (t_orders db'))
      = c j" if "j < 30" for j
  proof -
    have "length (filter (\<lambda>r. date_of (o_created_at r) = date_of (date j)) (t_orders db'))
        = length (filter (\<lambda>k. date_of (fst k) = date_of (date j)) (map order_key (t_orders db')))"
      by (simp add: order_key_def comp_def)
    also have "\<dots> = (if j \<in> set [0..<30] then c j else 0)"
      unfolding keys' K_def
    proof (rule day_keys_count)
      have "insert j (set [0..<30]) = {0..<30}" using that by auto
      with inj_on30 show "inj_on (\<lambda>day. date_of (date day)) (insert j (set [0..<30]))" by simp
      show "distinct [0..<30]" by simp
    qed
    finally show ?thesis using that by simp
  qed
  have two: "\<forall>dd\<in>set (map (\<lambda>r. date_of (o_created_at r)) (t_orders db')).
        5 \<le> length (filter (\<lambda>r. date_of (o_created_at r) = dd) (t_orders db')) \<and>
        length (filter (\<lambda>r. date_of (o_created_at r) = dd) (t_orders db')) \<le> 15"
  proof
    fix dd assume "dd \<in> set (map (\<lambda>r. date_of (o_created_at r)) (t_orders db'))"
    then obtain j where j: "j < 30" "dd = date_of (date j)" unfolding dset by auto
    from count [OF j(1)] c show
      "5 \<le> length (filter (\<lambda>r. date_of (o_created_at r) = dd) (t_orders db')) \<and>
        length (filter (\<lambda>r. date_of (o_created_at r) = dd) (t_orders db')) \<le> 15"
      unfolding j(2) by simp
  qed
  have three: "\<forall>row\<in>set (t_orders db').
        1 \<le> length (items_of db' (o_id row)) \<and> length (items_of db' (o_id row)) \<le> 4 \<and>
        distinct (map oi_product_id (items_of db' (o_id row)))"
    using ok' unfolding orders_ok_def by blast
  have c15: "\<forall>day. c day \<le> 15" using c by simp
  have four: "distinct (map o_order_number (t_orders db'))"
    unfolding numbers K_def
    by (rule day_keys_distinct [of 30 date c, OF inj c15 d30 in30])
  have five: "\<forall>row\<in>set (t_orders db').
        \<exists>n<15. o_order_number row = order_number_of (o_created_at row) n"
  proof
    fix row assume "row \<in> set (t_orders db')"
    then have "order_key row \<in> set (map order_key (t_orders db'))" by simp
    then have "order_key row \<in> set (day_keys date c [0..<30])" unfolding keys' K_def .
    from day_keys_numbers [OF this] obtain day n where
      dn: "n < c day" "order_key row = (date day, order_number_of (date day) n)" by blast
    from dn(1) c15 have "n < 15" by (meson less_le_trans)
    moreover from dn(2) have "o_order_number row = order_number_of (o_created_at row) n"
      by (simp add: order_key_def)
    ultimately show "\<exists>n<15. o_order_number row = order_number_of (o_created_at row) n"
      by blast
  qed
  from run one two three four five show ?thesis by blast
qed

text \<open>
  A run on the example catalog on 2024-01-15, whose window starts on 2023-12-16.
\<close>

theorem synthesizer_history_witness:
  "\<exists>db' g'. generate_dummy_orders t0 seeded_db example_rng = Inr (db', g') \<and>
     card (set (map (\<lambda>r. date_of (o_created_at r)) (t_orders db'))) = 30 \<and>
     (\<forall>dd\<in>set (map (\<lambda>r. date_of (o_created_at r)) (t_orders db')).
        5 \<le> length (filter (\<lambda>r. date_of (o_created_at r) = dd) (t_orders db')) \<and>
        length (filter (\<lambda>r. date_of (o_created_at r) = dd) (t_orders db')) \<le> 15) \<and>
     (\<forall>row\<in>set (t_orders db').
        1 \<le> length (items_of db' (o_id row)) \<and> length (items_of db' (o_id row)) \<le> 4 \<and>
        distinct (map oi_product_id (items_of db' (o_id row)))) \<and>
     distinct (map o_order_number (t_orders db')) \<and>
     (\<forall>row\<in>set (t_orders db').
        \<exists>n<15. o_order_number row = order_number_of (o_created_at row) n)"
proof -
  have v: "valid_datetime t0"
    by (simp add: valid_datetime_def t0_def days_in_month_def)
  have s: "minus_days t0 30 = Some \<lparr>dt_year = 2023, dt_month = 12, dt_day = 16, dt_hour = 10,
      dt_minute = 30, dt_second = 45\<rparr>"
    by code_simp
  have e: "t_orders seeded_db = []" "t_order_items seeded_db = []"
    by (simp_all add: seeded_db_def example_catalog_def empty_db_def)
  have p: "t_products seeded_db \<noteq> []" "distinct (map p_id (t_products seeded_db))"
    by (simp_all add: seeded_db_def example_catalog_def empty_db_def latte_def)
  have c: "t_customers seeded_db \<noteq> []"
    by (simp add: seeded_db_def)
  show ?thesis by (rule synthesizer_history [OF v s e p c])
qed

section \<open>The caller of the Order Finalizer\<close>

lemma panel_bump_None:
  "panel_bump pid cart = None \<longleftrightarrow> pid \<notin> set (map (p_id \<circ> pl_product) cart)"
  by (induction cart) auto

lemma panel_bump_Some_qty:
  "panel_bump pid cart = Some cart' \<Longrightarrow> list_all (\<lambda>i. 1 \<le> pl_quantity i) cart
    \<Longrightarrow> list_all (\<lambda>i. 1 \<le> pl_quantity i) cart'"
  by (induction cart arbitrary: cart') (auto split: if_splits)

lemma panel_step_qty:
  "list_all (\<lambda>i. 1 \<le> pl_quantity i) cart \<Longrightarrow> list_all (\<lambda>i. 1 \<le> pl_quantity i) (panel_step cart op)"
proof (cases op)
  case (PanelAdd product)
  assume ok: "list_all (\<lambda>i. 1 \<le> pl_quantity i) cart"
  show ?thesis
  proof (cases "panel_bump (p_id product) cart")
    case None
    then show ?thesis using ok PanelAdd by (simp add: panel_add_to_order_def)
  next
    case (Some cart')
    then show ?thesis using PanelAdd panel_bump_Some_qty [OF Some ok]
      by (simp add: panel_add_to_order_def)
  qed
next
  case (PanelRemove pid)
  assume "list_all (\<lambda>i. 1 \<le> pl_quantity i) cart"
  then show ?thesis using PanelRemove
    by (auto simp: panel_remove_from_order_def list_all_iff)
next
  case PanelClear
  then show ?thesis by (simp add: panel_clear_order_def)
qed

lemma panel_run_qty: "list_all (\<lambda>i. 1 \<le> pl_quantity i) cart \<Longrightarrow>
    list_all (\<lambda>i. 1 \<le> pl_quantity i) (foldl panel_step cart ops)"
  by (induction ops arbitrary: cart) (auto simp: panel_step_qty)

text \<open>
  Claim C4, as amended. The caller keeps empty carts and non-positive quantities away from
  \<^verbatim>\<open>create_order\<close>: \<^verbatim>\<open>process_payment\<close> on an empty cart returns at once, with the stored
  tables and the cart unchanged; every cart built from the empty one by add, remove and clear
  submits quantities of at least 1; and whenever \<^verbatim>\<open>process_payment\<close> changes the stored
  tables, the cart was not empty and the change is the one order \<^verbatim>\<open>create_order\<close> stored.
\<close>

theorem empty_cart_rejected_by_caller:
  "process_payment fails now ts (db, [], order_number) = (db, [], order_number) \<and>
   tab_process_payment ([], order_number) = ([], order_number) \<and>
   list_all (\<lambda>i. 1 \<le> i_quantity i) (payment_items (foldl panel_step [] ops)) \<and>
   (fst (process_payment fails now ts (db, cart, order_number)) \<noteq> db \<longrightarrow>
      cart \<noteq> [] \<and>
      main_create_order fails now ts db (payment_items cart) ''cash'' ''Jane Doe''
        = (fst (process_payment fails now ts (db, cart, order_number)),
           Inr (next_rowid (orders_seq db) (map o_id (t_orders db)))))"
proof (intro conjI impI)
  show "process_payment fails now ts (db, [], order_number) = (db, [], order_number)"
    by (simp add: process_payment_def)
  show "tab_process_payment ([], order_number) = ([], order_number)"
    by (simp add: tab_process_payment_def)
  have "list_all (\<lambda>i. 1 \<le> pl_quantity i) (foldl panel_step [] ops)"
    by (rule panel_run_qty) simp
  then show "list_all (\<lambda>i. 1 \<le> i_quantity i) (payment_items (foldl panel_step [] ops))"
    by (simp add: payment_items_def list_all_iff)
next
  assume ch: "fst (process_payment fails now ts (db, cart, order_number)) \<noteq> db"
  then show "cart \<noteq> []" by (auto simp: process_payment_def)
  then have pp: "process_payment fails now ts (db, cart, order_number) =
      (case main_create_order fails now ts db (payment_items cart) ''cash'' ''Jane Doe'' of
         (db', Inl e) \<Rightarrow> (db', cart, order_number)
       | (db', Inr order_id) \<Rightarrow> (db', panel_clear_order cart, order_number + 1))"
    by (simp add: process_payment_def)
  obtain db' res where m: "main_create_order fails now ts db (payment_items cart) ''cash''
      ''Jane Doe'' = (db', res)" by (cases "main_create_order fails now ts db
        (payment_items cart) ''cash'' ''Jane Doe''")
  show "main_create_order fails now ts db (payment_items cart) ''cash'' ''Jane Doe''
        = (fst (process_payment fails now ts (db, cart, order_number)),
           Inr (next_rowid (orders_seq db) (map o_id (t_orders db))))"
  proof (cases res)
    case (Inl e)
    with m have "snd (main_create_order fails now ts db (payment_items cart) ''cash''
        ''Jane Doe'') = Inl e" by simp
    then have "fst (main_create_order fails now ts db (payment_items cart) ''cash''
        ''Jane Doe'') = db"
      unfolding main_create_order_def by (rule transaction_error_unchanged)
    with m Inl pp ch show ?thesis by simp
  next
    case (Inr oid)
    with m have "create_order_body fails now ts db None (\<lambda>item. None) (payment_items cart)
        ''cash'' ''Jane Doe'' = Inr (db', oid)"
      unfolding main_create_order_def by (simp add: transaction_Inr)
    from body_success [OF this] have "oid = next_rowid (orders_seq db) (map o_id (t_orders db))"
      by blast
    with m Inr pp show ?thesis by simp
  qed
qed

text \<open>
  A payment on a cart with two lattes stores the order and its item row.
\<close>

theorem empty_cart_rejected_by_caller_witness:
  "process_payment no_fault t0 t0 (empty_db, [\<lparr>pl_product = latte, pl_quantity = 2\<rparr>], 123)
     = (fst (main_create_order no_fault t0 t0 empty_db
               (payment_items [\<lparr>pl_product = latte, pl_quantity = 2\<rparr>]) ''cash'' ''Jane Doe''),
        [], 124) \<and>
   map oi_quantity (t_order_items (fst (process_payment no_fault t0 t0
     (empty_db, [\<lparr>pl_product = latte, pl_quantity = 2\<rparr>], 123)))) = [2] \<and>
   main_create_order no_fault t0 t0 empty_db
       (payment_items [\<lparr>pl_product = latte, pl_quantity = 2\<rparr>]) ''cash'' ''Jane Doe''
     = (fst (process_payment no_fault t0 t0
          (empty_db, [\<lparr>pl_product = latte, pl_quantity = 2\<rparr>], 123)), Inr 1)"
proof -
  have run: "process_payment no_fault t0 t0 (empty_db, [\<lparr>pl_product = latte, pl_quantity = 2\<rparr>], 123)
     = (fst (main_create_order no_fault t0 t0 empty_db
               (payment_items [\<lparr>pl_product = latte, pl_quantity = 2\<rparr>]) ''cash'' ''Jane Doe''),
        [], 124)"
    by (simp add: process_payment_def payment_items_def panel_clear_order_def run_defs)
  have items: "map oi_quantity (t_order_items (fst (process_payment no_fault t0 t0
     (empty_db, [\<lparr>pl_product = latte, pl_quantity = 2\<rparr>], 123)))) = [2]"
    unfolding run by (simp add: payment_items_def run_defs)
  then have changed: "fst (process_payment no_fault t0 t0
      (empty_db, [\<lparr>pl_product = latte, pl_quantity = 2\<rparr>], 123)) \<noteq> empty_db"
    by (auto simp: empty_db_def)
  from empty_cart_rejected_by_caller [of no_fault t0 t0 empty_db 123 "[]"
      "[\<lparr>pl_product = latte, pl_quantity = 2\<rparr>]"] changed run items
  show ?thesis by (simp add: empty_db_def next_rowid_def)
qed

end
